theory Spec2Isabelle
  imports Main
begin

section \<open>Data model of the approvers repeater\<close>

text \<open>
  The component \<^verbatim>\<open>ApproversRepeater\<close> of \<^verbatim>\<open>approvers-repeater.ts\<close> is a single-threaded,
  event-driven object. Every event handler and every continuation after an \<^verbatim>\<open>await\<close> is
  modelled as a function from the component state to the component state; what the
  component does to the outside world (events it dispatches, calls it makes) is appended
  to a trace kept in the state.
\<close>

record row =
  order :: nat
  approver :: string

text \<open>\<^verbatim>\<open>Person\<close>; the optional \<^verbatim>\<open>email\<close> is \<open>None\<close> when undefined.\<close>

record person =
  id_person :: string
  displayName :: string
  email :: "string option"
  login :: string

text \<open>\<^verbatim>\<open>GraphUser\<close>, as returned by the directory.\<close>

record graph_user =
  gu_id :: string
  gu_displayName :: string
  userPrincipalName :: "string option"
  mail :: "string option"

datatype endpoint = MePeople | Users

datatype request =
    UserByKey string
  | UsersSearch string nat
  | PeopleSearch string nat

text \<open>
  What the component does to its surroundings, in the order it does it:
  the two events \<^verbatim>\<open>saveValue\<close> dispatches on the component itself, the write to the
  element \<^verbatim>\<open>jsonTargetId\<close> names and the notifications it schedules on that element
  (\<^verbatim>\<open>setTimeout(..., 100)\<close>), the call of the host's \<^verbatim>\<open>updateControlValue\<close>, and the
  calls towards the directory: \<^verbatim>\<open>graphSearch\<close> (with the row index of the calling
  closure), \<^verbatim>\<open>fetchUserDetails\<close>, \<^verbatim>\<open>getAccessToken\<close> and \<^verbatim>\<open>fetch\<close>.
\<close>

datatype effect =
    NtxValueChange string
  | Change string
  | SinkSet string string
  | SinkNotify string
  | ApiUpdate string string
  | SearchCall nat string
  | UserDetailsCall string
  | TokenRequest "string list"
  | HttpGet request

datatype error = TypeError

text \<open>
  A search that has been started and has not settled: \<open>AwaitToken\<close> while
  \<^verbatim>\<open>getAccessToken\<close> is pending, \<open>AwaitFetch\<close> while \<^verbatim>\<open>fetch\<close> is pending,
  \<open>ShortCircuit\<close> when \<^verbatim>\<open>graphSearch\<close> returned \<^verbatim>\<open>[]\<close> at once in display mode (the
  closure still resumes only after the promise has settled).
\<close>

datatype phase = AwaitToken | AwaitFetch | ShortCircuit

record query =
  q_id :: nat
  q_index :: nat
  q_term :: string
  q_phase :: phase

text \<open>
  The three \<^verbatim>\<open>Record<number, ...>\<close> objects are maps from the row position; \<open>None\<close> is
  a missing key or a key holding \<^verbatim>\<open>undefined\<close> (no read of the source tells them apart).
  In \<open>selections\<close>, \<open>Some None\<close> is \<^verbatim>\<open>null\<close>.

  A pending \<^verbatim>\<open>setTimeout\<close> callback of \<^verbatim>\<open>onRowInput\<close> is a triple of its handle, the
  row index its closure captured and the value of the input element it will read.
  \<open>debounceTimer\<close> is the handle the field holds (\<open>None\<close> for \<^verbatim>\<open>null\<close>); the source never
  resets it after the callback ran.

  \<open>targetFound\<close> says whether \<^verbatim>\<open>getElementById(jsonTargetId)\<close> finds an element,
  \<open>controlUtils\<close> whether the host offers \<^verbatim>\<open>updateControlValue\<close>.
  \<open>scopes\<close> is \<^verbatim>\<open>scopesCsv.split(',').map(s => s.trim()).filter(Boolean)\<close>.
\<close>

record component =
  minRows :: int
  maxRows :: int
  value_prop :: string
  graphEndpoint :: endpoint
  scopes :: "string list"
  maxSuggestions :: int
  minChars :: int
  jsonTargetId :: string
  forceEditable :: bool
  rows :: "row list"
  activeRowIndex :: "nat option"
  terms :: "nat \<Rightarrow> string option"
  selections :: "nat \<Rightarrow> person option option"
  suggestions :: "nat \<Rightarrow> person list option"
  loading :: bool
  errorMsg :: string
  displayMode :: bool
  renderTick :: nat
  debounceTimer :: "nat option"
  timers :: "(nat \<times> nat \<times> string) list"
  nextHandle :: nat
  searches :: "query list"
  nextQuery :: nat
  targetFound :: bool
  controlUtils :: bool
  trace :: "effect list"

section \<open>Serialisation\<close>

text \<open>
  \<^verbatim>\<open>JSON.stringify(this.rows)\<close> and \<^verbatim>\<open>JSON.stringify(this.rows, null, 2)\<close> for rows that
  hold exactly the keys \<^verbatim>\<open>order\<close> and \<^verbatim>\<open>approver\<close>, in this order, as every row the
  component creates does. A \<open>string\<close> is a list of bytes: a byte above 127 is copied
  as it is.
\<close>

definition dquote :: char where
  "dquote = CHR 0x22"

definition bslash :: char where
  "bslash = CHR 0x5C"

definition digit :: "nat \<Rightarrow> char" where
  "digit n = ''0123456789abcdef'' ! n"

fun decimal :: "nat \<Rightarrow> string" where
  "decimal n = (if n < 10 then [digit n] else decimal (n div 10) @ [digit (n mod 10)])"

declare decimal.simps [simp del]

definition quoteJSONChar :: "char \<Rightarrow> string" where
  "quoteJSONChar c =
     (let n = (of_char c :: nat) in
      if n = 8 then [bslash, CHR ''b'']
      else if n = 9 then [bslash, CHR ''t'']
      else if n = 10 then [bslash, CHR ''n'']
      else if n = 12 then [bslash, CHR ''f'']
      else if n = 13 then [bslash, CHR ''r'']
      else if n = 34 then [bslash, dquote]
      else if n = 92 then [bslash, bslash]
      else if n < 32 then [bslash, CHR ''u'', CHR ''0'', CHR ''0'', digit (n div 16), digit (n mod 16)]
      else [c])"

definition quoteJSONString :: "string \<Rightarrow> string" where
  "quoteJSONString s = dquote # concat (map quoteJSONChar s) @ [dquote]"

definition rowCompact :: "row \<Rightarrow> string" where
  "rowCompact r =
     ''{'' @ quoteJSONString ''order'' @ '':'' @ decimal (order r) @ '','' @
     quoteJSONString ''approver'' @ '':'' @ quoteJSONString (approver r) @ ''}''"

fun joinWith :: "string \<Rightarrow> string list \<Rightarrow> string" where
  "joinWith sep [] = []"
| "joinWith sep [x] = x"
| "joinWith sep (x # y # ys) = x @ sep @ joinWith sep (y # ys)"

definition stringify :: "row list \<Rightarrow> string" where
  "stringify rs = ''['' @ joinWith '','' (map rowCompact rs) @ '']''"

definition newline :: char where
  "newline = CHR 0x0A"

definition rowPretty :: "row \<Rightarrow> string" where
  "rowPretty r =
     ''  {'' @ [newline] @
     ''    '' @ quoteJSONString ''order'' @ '': '' @ decimal (order r) @ '','' @ [newline] @
     ''    '' @ quoteJSONString ''approver'' @ '': '' @ quoteJSONString (approver r) @ [newline] @
     ''  }''"

definition stringifyPretty :: "row list \<Rightarrow> string" where
  "stringifyPretty rs =
     (if rs = [] then ''[]''
      else ''['' @ [newline] @ joinWith ('','' @ [newline]) (map rowPretty rs) @ [newline] @ '']'')"

section \<open>Persistence\<close>

text \<open>\<^verbatim>\<open>saveValue\<close>.\<close>

definition saveValue :: "component \<Rightarrow> component" where
  "saveValue s =
     (if displayMode s then s
      else
        let newValue = stringify (rows s);
            jsonValue = stringifyPretty (rows s);
            s1 = (if value_prop s \<noteq> newValue
                  then s\<lparr>value_prop := newValue,
                         trace := trace s @ [NtxValueChange newValue, Change newValue]\<rparr>
                  else s)
        in if jsonTargetId s1 \<noteq> []
           then
             let s2 = (if targetFound s1
                       then s1\<lparr>trace := trace s1 @
                              [SinkSet (jsonTargetId s1) jsonValue, SinkNotify (jsonTargetId s1)]\<rparr>
                       else s1)
             in if controlUtils s2
                then s2\<lparr>trace := trace s2 @ [ApiUpdate (jsonTargetId s2) jsonValue]\<rparr>
                else s2
           else s1)"

text \<open>
  The loop of \<^verbatim>\<open>ensureMinRows\<close>:
  \<^verbatim>\<open>while (this.rows.length < this.minRows) this.rows.push({ order: this.rows.length + 1, approver: '' })\<close>.
\<close>

function backfill :: "int \<Rightarrow> row list \<Rightarrow> row list" where
  "backfill m rs =
     (if int (length rs) < m
      then backfill m (rs @ [\<lparr>order = length rs + 1, approver = []\<rparr>])
      else rs)"
  by pat_completeness auto
termination
  by (relation "measure (\<lambda>(m, rs). nat (m - int (length rs)))") auto

declare backfill.simps [simp del]

definition ensureMinRows :: "component \<Rightarrow> component" where
  "ensureMinRows s =
     (if displayMode s then s
      else saveValue (s\<lparr>rows := backfill (minRows s) (rows s)\<rparr>))"

text \<open>\<^verbatim>\<open>renumberOrders\<close>: \<^verbatim>\<open>this.rows.forEach((r, i) => r.order = i + 1)\<close>.\<close>

definition renumberOrders :: "row list \<Rightarrow> row list" where
  "renumberOrders rs = map (\<lambda>(i, r). r\<lparr>order := i + 1\<rparr>) (enumerate 0 rs)"

section \<open>Row operations\<close>

text \<open>\<^verbatim>\<open>addRow\<close>.\<close>

definition addRow :: "component \<Rightarrow> component" where
  "addRow s =
     (if displayMode s then s
      else if int (length (rows s)) \<ge> maxRows s then s
      else saveValue (s\<lparr>rows := rows s @ [\<lparr>order = length (rows s) + 1, approver = []\<rparr>],
                         renderTick := renderTick s + 1\<rparr>))"

text \<open>
  \<^verbatim>\<open>this.rows.splice(index, 1)\<close> for an index that is not negative: nothing is removed
  when the index is not a position of the list.
\<close>

definition splice1 :: "nat \<Rightarrow> 'a list \<Rightarrow> 'a list" where
  "splice1 index xs = take index xs @ drop (Suc index) xs"

text \<open>The reads \<^verbatim>\<open>this.terms[k] || ''\<close>, \<^verbatim>\<open>this.selections[k] || null\<close>, \<^verbatim>\<open>this.suggestions[k] || []\<close>.\<close>

definition termAt :: "(nat \<Rightarrow> string option) \<Rightarrow> nat \<Rightarrow> string" where
  "termAt m k = (case m k of None \<Rightarrow> [] | Some t \<Rightarrow> t)"

definition selectionAt :: "(nat \<Rightarrow> person option option) \<Rightarrow> nat \<Rightarrow> person option" where
  "selectionAt m k = (case m k of None \<Rightarrow> None | Some p \<Rightarrow> p)"

definition suggestionsAt :: "(nat \<Rightarrow> person list option) \<Rightarrow> nat \<Rightarrow> person list" where
  "suggestionsAt m k = (case m k of None \<Rightarrow> [] | Some ps \<Rightarrow> ps)"

text \<open>
  \<^verbatim>\<open>removeRow\<close>: the row is spliced out, the three maps are rebuilt for the positions of
  the rows that are left, then \<^verbatim>\<open>renumberOrders\<close>, \<^verbatim>\<open>saveValue\<close>, \<^verbatim>\<open>ensureMinRows\<close>.
\<close>

definition removeRow :: "nat \<Rightarrow> component \<Rightarrow> component" where
  "removeRow index s =
     (if displayMode s then s
      else
        let rs = splice1 index (rows s);
            old = (\<lambda>i. if i \<ge> index then i + 1 else i);
            s1 = s\<lparr>rows := renumberOrders rs,
                   terms := (\<lambda>i. if i < length rs then Some (termAt (terms s) (old i)) else None),
                   selections :=
                     (\<lambda>i. if i < length rs then Some (selectionAt (selections s) (old i)) else None),
                   suggestions :=
                     (\<lambda>i. if i < length rs then Some (suggestionsAt (suggestions s) (old i)) else None),
                   renderTick := renderTick s + 1\<rparr>
        in ensureMinRows (saveValue s1))"

text \<open>
  \<^verbatim>\<open>moveUp\<close>. The source has no upper guard: for \<^verbatim>\<open>index >= rows.length\<close> the swap stores
  \<^verbatim>\<open>undefined\<close> in the array and \<^verbatim>\<open>renumberOrders\<close> throws a TypeError on it.
\<close>

definition moveUp :: "nat \<Rightarrow> component \<Rightarrow> error + component" where
  "moveUp index s =
     (if displayMode s then Inr s
      else if index \<le> 0 then Inr s
      else if index \<ge> length (rows s) then Inl TypeError
      else Inr (saveValue (s\<lparr>
        rows := renumberOrders ((rows s)[index - 1 := rows s ! index, index := rows s ! (index - 1)]),
        terms := (terms s)(index - 1 := terms s index, index := terms s (index - 1)),
        selections := (selections s)(index - 1 := selections s index, index := selections s (index - 1)),
        suggestions := (suggestions s)(index - 1 := suggestions s index, index := suggestions s (index - 1)),
        renderTick := renderTick s + 1\<rparr>)))"

text \<open>\<^verbatim>\<open>moveDown\<close>: the guard \<^verbatim>\<open>index >= this.rows.length - 1\<close> also covers the empty list.\<close>

definition moveDown :: "nat \<Rightarrow> component \<Rightarrow> component" where
  "moveDown index s =
     (if displayMode s then s
      else if int index \<ge> int (length (rows s)) - 1 then s
      else saveValue (s\<lparr>
        rows := renumberOrders ((rows s)[index + 1 := rows s ! index, index := rows s ! (index + 1)]),
        terms := (terms s)(index + 1 := terms s index, index := terms s (index + 1)),
        selections := (selections s)(index + 1 := selections s index, index := selections s (index + 1)),
        suggestions := (suggestions s)(index + 1 := suggestions s index, index := suggestions s (index + 1)),
        renderTick := renderTick s + 1\<rparr>))"

text \<open>
  \<^verbatim>\<open>onPick\<close> and \<^verbatim>\<open>clearRow\<close> write \<^verbatim>\<open>this.rows[index].approver\<close>, a TypeError when the
  index is not a position of the list.
\<close>

definition onPick :: "nat \<Rightarrow> person \<Rightarrow> component \<Rightarrow> error + component" where
  "onPick index p s =
     (if displayMode s then Inr s
      else if index \<ge> length (rows s) then Inl TypeError
      else
        let s1 = saveValue (s\<lparr>
              selections := (selections s)(index \<mapsto> Some p),
              terms := (terms s)(index \<mapsto> displayName p),
              rows := (rows s)[index := (rows s ! index)\<lparr>approver := login p\<rparr>]\<rparr>)
        in Inr (s1\<lparr>suggestions := (suggestions s1)(index := None), activeRowIndex := None\<rparr>))"

definition clearRow :: "nat \<Rightarrow> component \<Rightarrow> error + component" where
  "clearRow index s =
     (if displayMode s then Inr s
      else if index \<ge> length (rows s) then Inl TypeError
      else Inr (saveValue (s\<lparr>
        selections := (selections s)(index \<mapsto> None),
        terms := (terms s)(index \<mapsto> []),
        rows := (rows s)[index := (rows s ! index)\<lparr>approver := []\<rparr>]\<rparr>)))"

section \<open>Incremental search\<close>

text \<open>
  \<^verbatim>\<open>(this.minChars || 2)\<close>: the threshold is 2 when \<^verbatim>\<open>minChars\<close> is 0.
\<close>

definition threshold :: "component \<Rightarrow> int" where
  "threshold s = (if minChars s = 0 then 2 else minChars s)"

text \<open>\<^verbatim>\<open>clearTimeout(h)\<close>: the callback with this handle, if it is still pending, is dropped.\<close>

definition clearTimeout :: "nat \<Rightarrow> (nat \<times> nat \<times> string) list \<Rightarrow> (nat \<times> nat \<times> string) list" where
  "clearTimeout h ts = filter (\<lambda>(h', i, v). h' \<noteq> h) ts"

text \<open>
  \<^verbatim>\<open>onRowInput(index, e)\<close>, with \<open>v\<close> the value of the input element. The closure given to
  \<^verbatim>\<open>setTimeout\<close> reads \<^verbatim>\<open>t.value\<close> when it runs; the pending callback carries the value the
  event left in the element.
\<close>

definition onRowInput :: "nat \<Rightarrow> string \<Rightarrow> component \<Rightarrow> component" where
  "onRowInput index v s =
     (if displayMode s then s
      else
        let s1 = s\<lparr>terms := (terms s)(index \<mapsto> v),
                   activeRowIndex := Some index,
                   errorMsg := []\<rparr>;
            s2 = (case debounceTimer s1 of
                    None \<Rightarrow> s1
                  | Some h \<Rightarrow> s1\<lparr>timers := clearTimeout h (timers s1)\<rparr>)
        in if int (length v) < threshold s2
           then s2\<lparr>suggestions := (suggestions s2)(index := None)\<rparr>
           else s2\<lparr>timers := timers s2 @ [(nextHandle s2, index, v)],
                   debounceTimer := Some (nextHandle s2),
                   nextHandle := Suc (nextHandle s2)\<rparr>)"

text \<open>
  \<^verbatim>\<open>graphSearch(term)\<close>, called by the closure of row \<open>index\<close>, up to its first
  \<^verbatim>\<open>await\<close>: in display mode it returns \<^verbatim>\<open>[]\<close> and asks for nothing; otherwise it asks
  for a token.
\<close>

definition graphSearch :: "nat \<Rightarrow> string \<Rightarrow> component \<Rightarrow> component" where
  "graphSearch index v s =
     (let s1 = s\<lparr>trace := trace s @ [SearchCall index v]\<rparr>
      in if displayMode s1
         then s1\<lparr>searches := searches s1 @
                    [\<lparr>q_id = nextQuery s1, q_index = index, q_term = v, q_phase = ShortCircuit\<rparr>],
                  nextQuery := Suc (nextQuery s1)\<rparr>
         else s1\<lparr>trace := trace s1 @ [TokenRequest (scopes s1)],
                  searches := searches s1 @
                    [\<lparr>q_id = nextQuery s1, q_index = index, q_term = v, q_phase = AwaitToken\<rparr>],
                  nextQuery := Suc (nextQuery s1)\<rparr>)"

text \<open>
  The callback of the timer with handle \<open>h\<close> runs, 200 ms after it was set:
  \<^verbatim>\<open>this.loading = true\<close> and \<^verbatim>\<open>graphSearch(t.value)\<close> is called. Nothing happens for a
  handle that is not pending.
\<close>

definition timerFire :: "nat \<Rightarrow> component \<Rightarrow> component" where
  "timerFire h s =
     (case find (\<lambda>(h', i, v). h' = h) (timers s) of
        None \<Rightarrow> s
      | Some (h', index, v) \<Rightarrow>
          graphSearch index v (s\<lparr>timers := clearTimeout h (timers s), loading := True\<rparr>))"

text \<open>\<^verbatim>\<open>a || b\<close> on optional strings: \<^verbatim>\<open>undefined\<close> and the empty string are falsy.\<close>

definition truthy :: "string option \<Rightarrow> bool" where
  "truthy a = (case a of None \<Rightarrow> False | Some x \<Rightarrow> x \<noteq> [])"

definition toPerson :: "graph_user \<Rightarrow> person" where
  "toPerson u =
     \<lparr>id_person = gu_id u,
      displayName = gu_displayName u,
      email = (if truthy (mail u) then mail u else userPrincipalName u),
      login = (if truthy (userPrincipalName u) then the (userPrincipalName u)
               else if truthy (mail u) then the (mail u)
               else gu_id u)\<rparr>"

text \<open>\<^verbatim>\<open>Math.max(1, Math.min(this.maxSuggestions || 8, 25))\<close> and the endpoint chosen.\<close>

definition top :: "component \<Rightarrow> nat" where
  "top s = nat (max 1 (min (if maxSuggestions s = 0 then 8 else maxSuggestions s) 25))"

definition searchRequest :: "component \<Rightarrow> string \<Rightarrow> request" where
  "searchRequest s v =
     (if graphEndpoint s = Users then UsersSearch v (top s) else PeopleSearch v (top s))"

definition findQuery :: "nat \<Rightarrow> component \<Rightarrow> query option" where
  "findQuery k s = find (\<lambda>q. q_id q = k) (searches s)"

definition dropQuery :: "nat \<Rightarrow> query list \<Rightarrow> query list" where
  "dropQuery k qs = filter (\<lambda>q. q_id q \<noteq> k) qs"

text \<open>\<^verbatim>\<open>getAccessToken\<close> has resolved for search \<open>k\<close>: \<^verbatim>\<open>graphSearch\<close> goes on to its \<^verbatim>\<open>fetch\<close>.\<close>

definition tokenAcquired :: "nat \<Rightarrow> component \<Rightarrow> component" where
  "tokenAcquired k s =
     (case findQuery k s of
        None \<Rightarrow> s
      | Some q \<Rightarrow>
          if q_phase q = AwaitToken
          then s\<lparr>trace := trace s @ [HttpGet (searchRequest s (q_term q))],
                 searches := map (\<lambda>q'. if q_id q' = k then q'\<lparr>q_phase := AwaitFetch\<rparr> else q')
                               (searches s)\<rparr>
          else s)"

text \<open>
  \<^verbatim>\<open>graphSearch\<close> has returned for search \<open>k\<close>, with the users of the response (nothing for
  the short circuit of display mode): the \<^verbatim>\<open>try\<close> branch and \<^verbatim>\<open>finally\<close> of the closure.
\<close>

definition searchResolved :: "nat \<Rightarrow> graph_user list \<Rightarrow> component \<Rightarrow> component" where
  "searchResolved k us s =
     (case findQuery k s of
        None \<Rightarrow> s
      | Some q \<Rightarrow>
          if q_phase q = AwaitToken then s
          else
            let results = (if q_phase q = ShortCircuit then [] else map toPerson us)
            in s\<lparr>suggestions := (suggestions s)(q_index q \<mapsto> results),
                 loading := False,
                 searches := dropQuery k (searches s)\<rparr>)"

text \<open>
  \<^verbatim>\<open>graphSearch\<close> has thrown for search \<open>k\<close> (the token was refused, \<^verbatim>\<open>fetch\<close> failed or the
  response was not ok), with the message of the error if it has one: the \<^verbatim>\<open>catch\<close> branch
  and \<^verbatim>\<open>finally\<close>.
\<close>

definition searchFailed :: "nat \<Rightarrow> string option \<Rightarrow> component \<Rightarrow> component" where
  "searchFailed k msg s =
     (case findQuery k s of
        None \<Rightarrow> s
      | Some q \<Rightarrow>
          if q_phase q = ShortCircuit then s
          else s\<lparr>errorMsg := (if truthy msg then the msg else ''Search error.''),
                 suggestions := (suggestions s)(q_index q := None),
                 loading := False,
                 searches := dropQuery k (searches s)\<rparr>)"

section \<open>Loading\<close>

text \<open>
  The directory as \<^verbatim>\<open>loadValue\<close> meets it: what \<^verbatim>\<open>getAccessToken\<close> gives for the scopes
  (\<open>None\<close> when it rejects) and what the lookup of a key gives (\<open>None\<close> when \<^verbatim>\<open>fetch\<close>
  rejects or the response is not ok).
\<close>

record directory =
  tokenFor :: "string list \<Rightarrow> string option"
  userFor :: "string \<Rightarrow> graph_user option"

text \<open>The calls one \<^verbatim>\<open>fetchUserDetails(email)\<close> makes, and its result.\<close>

definition fetchEffects :: "directory \<Rightarrow> string list \<Rightarrow> string \<Rightarrow> effect list" where
  "fetchEffects d sc key =
     [UserDetailsCall key, TokenRequest sc] @
     (case tokenFor d sc of None \<Rightarrow> [] | Some tok \<Rightarrow> [HttpGet (UserByKey key)])"

definition fetchUserDetails :: "directory \<Rightarrow> string list \<Rightarrow> string \<Rightarrow> person option" where
  "fetchUserDetails d sc key =
     (case tokenFor d sc of
        None \<Rightarrow> None
      | Some tok \<Rightarrow> (case userFor d key of None \<Rightarrow> None | Some u \<Rightarrow> Some (toPerson u)))"

text \<open>
  The loop of \<^verbatim>\<open>loadValue\<close> over \<^verbatim>\<open>this.rows.entries()\<close>, its body first. The lookups
  are awaited one after the other; the model runs the loop without another handler in
  between.
\<close>

definition hydrateRow :: "directory \<Rightarrow> nat \<Rightarrow> row \<Rightarrow> component \<Rightarrow> component" where
  "hydrateRow d i r s =
     (if approver r \<noteq> []
      then
        let s1 = s\<lparr>trace := trace s @ fetchEffects d (scopes s) (approver r)\<rparr>
        in (case fetchUserDetails d (scopes s) (approver r) of
              Some user \<Rightarrow>
                s1\<lparr>selections := (selections s1)(i \<mapsto> Some user),
                   terms := (terms s1)(i \<mapsto>
                     (if displayName user \<noteq> [] then displayName user else approver r))\<rparr>
            | None \<Rightarrow>
                s1\<lparr>selections := (selections s1)(i \<mapsto>
                     Some \<lparr>id_person = approver r, displayName = approver r,
                           email = Some (approver r), login = approver r\<rparr>),
                   terms := (terms s1)(i \<mapsto> approver r),
                   errorMsg := ''Unable to load details for some approvers.''\<rparr>)
      else s)"

fun hydrate :: "directory \<Rightarrow> (nat \<times> row) list \<Rightarrow> component \<Rightarrow> component" where
  "hydrate d [] s = s"
| "hydrate d ((i, r) # irs) s = hydrate d irs (hydrateRow d i r s)"

text \<open>
  What \<^verbatim>\<open>JSON.parse(this.value || '[]')\<close> gives: an exception, a value that is not an
  array, or an array of rows. An array with an element that is not a row object is
  not modelled.
\<close>

datatype parsed = ParseError | NotArray | Array "row list"

definition loadValue :: "parsed \<Rightarrow> directory \<Rightarrow> component \<Rightarrow> component" where
  "loadValue p d s =
     (let rs = (case p of Array rs \<Rightarrow> rs | _ \<Rightarrow> []);
          s1 = s\<lparr>rows := renumberOrders rs\<rparr>;
          s2 = (if \<not> displayMode s1 then ensureMinRows s1 else s1);
          s3 = s2\<lparr>terms := (\<lambda>i. None), selections := (\<lambda>i. None), suggestions := (\<lambda>i. None)\<rparr>
      in hydrate d (enumerate 0 (rows s3)) s3)"

text \<open>
  \<^verbatim>\<open>isDisplayMode\<close>: the override \<^verbatim>\<open>forceEditable\<close> first, then what the host says
  (\<open>host\<close> stands for the form mode, the edit button, the URL and the attribute).
\<close>

definition isDisplayMode :: "component \<Rightarrow> bool \<Rightarrow> bool" where
  "isDisplayMode s host = (if forceEditable s then False else host)"

definition firstUpdated :: "bool \<Rightarrow> parsed \<Rightarrow> directory \<Rightarrow> component \<Rightarrow> component" where
  "firstUpdated host p d s = loadValue p d (s\<lparr>displayMode := isDisplayMode s host\<rparr>)"

section \<open>Runs of the component\<close>

text \<open>The field initialisers of the class.\<close>

definition created :: component where
  "created =
     \<lparr>minRows = 1, maxRows = 10, value_prop = ''[]'', graphEndpoint = MePeople,
      scopes = [''People.Read'', ''User.Read''], maxSuggestions = 8, minChars = 2,
      jsonTargetId = [], forceEditable = False,
      rows = [], activeRowIndex = None,
      terms = (\<lambda>i. None), selections = (\<lambda>i. None), suggestions = (\<lambda>i. None),
      loading = False, errorMsg = [], displayMode = True, renderTick = 0,
      debounceTimer = None, timers = [], nextHandle = 1,
      searches = [], nextQuery = 0,
      targetFound = False, controlUtils = False, trace = []\<rparr>"

datatype event =
    FirstUpdated bool parsed directory
  | Input nat string
  | Pick nat person
  | Clear nat
  | Add
  | Remove nat
  | MoveUp nat
  | MoveDown nat
  | TimerFire nat
  | TokenAcquired nat
  | SearchResolved nat "graph_user list"
  | SearchFailed nat "string option"

fun step :: "event \<Rightarrow> component \<Rightarrow> error + component" where
  "step (FirstUpdated host p d) s = Inr (firstUpdated host p d s)"
| "step (Input i v) s = Inr (onRowInput i v s)"
| "step (Pick i p) s = onPick i p s"
| "step (Clear i) s = clearRow i s"
| "step Add s = Inr (addRow s)"
| "step (Remove i) s = Inr (removeRow i s)"
| "step (MoveUp i) s = moveUp i s"
| "step (MoveDown i) s = Inr (moveDown i s)"
| "step (TimerFire h) s = Inr (timerFire h s)"
| "step (TokenAcquired k) s = Inr (tokenAcquired k s)"
| "step (SearchResolved k us) s = Inr (searchResolved k us s)"
| "step (SearchFailed k msg) s = Inr (searchFailed k msg s)"

text \<open>A run stops at the first handler that throws.\<close>

fun run :: "event list \<Rightarrow> component \<Rightarrow> error + component" where
  "run [] s = Inr s"
| "run (e # es) s = (case step e s of Inl err \<Rightarrow> Inl err | Inr s' \<Rightarrow> run es s')"

section \<open>Credentials\<close>

text \<open>
  \<^verbatim>\<open>ensureMsal\<close>, \<^verbatim>\<open>ensureAccount\<close> and \<^verbatim>\<open>getAccessToken\<close> are asynchronous and share the
  fields \<^verbatim>\<open>msal\<close> and \<^verbatim>\<open>account\<close>. Each call of \<^verbatim>\<open>getAccessToken\<close> is a request that
  stands at one of its \<^verbatim>\<open>await\<close>s; a step resumes one request with what the awaited
  promise settled to and runs it to its next \<^verbatim>\<open>await\<close>. Requests interleave only there.

  The identity library is outside the source: the model keeps what the source reads of
  it (the active account, the cached accounts) and records every popup the source asks
  it to open.
\<close>

type_synonym account = string

datatype prompt = LoginPopup | TokenPopup

datatype auth_pc =
    AwaitInitialize
  | AwaitRedirect
  | AwaitEnsureMsal
  | AwaitLoginPopup
  | AwaitEnsureAccount
  | AwaitSilent
  | AwaitTokenPopup
  | Resolved string
  | Rejected

datatype settled = Done | GotAccount account | GotToken string | Failed

record session =
  clientId :: string
  msal :: bool
  activeAccount :: "account option"
  allAccounts :: "account list"
  account :: "account option"
  openPrompts :: "prompt list"
  promptLog :: "prompt list"
  requests :: "auth_pc list"

text \<open>
  A call of \<^verbatim>\<open>getAccessToken(scopes)\<close>, up to the first \<^verbatim>\<open>await\<close> it reaches inside
  \<^verbatim>\<open>ensureMsal\<close>: the client exists already, or the client id is missing and the call
  is rejected, or the client is made and \<^verbatim>\<open>initialize()\<close> is awaited.
\<close>

definition getAccessToken :: "session \<Rightarrow> session" where
  "getAccessToken s =
     (if msal s then s\<lparr>requests := requests s @ [AwaitEnsureMsal]\<rparr>
      else if clientId s = [] then s\<lparr>requests := requests s @ [Rejected]\<rparr>
      else s\<lparr>msal := True, requests := requests s @ [AwaitInitialize]\<rparr>)"

text \<open>\<^verbatim>\<open>this.msal!.getActiveAccount() || this.msal!.getAllAccounts()[0]\<close>.\<close>

definition knownAccount :: "session \<Rightarrow> account option" where
  "knownAccount s =
     (case activeAccount s of
        Some a \<Rightarrow> Some a
      | None \<Rightarrow> (case allAccounts s of [] \<Rightarrow> None | a # as \<Rightarrow> Some a))"

text \<open>
  Request \<open>k\<close> resumes with the outcome \<open>r\<close> of the promise it awaits. A failure of
  \<^verbatim>\<open>initialize()\<close> or \<^verbatim>\<open>handleRedirectPromise()\<close> is caught and logged, so these two go on
  whatever the outcome. An outcome that the awaited promise cannot have leaves the state
  as it is.
\<close>

definition resume :: "nat \<Rightarrow> settled \<Rightarrow> session \<Rightarrow> session" where
  "resume k r s =
     (if k \<ge> length (requests s) then s
      else
        (case requests s ! k of
           AwaitInitialize \<Rightarrow> s\<lparr>requests := (requests s)[k := AwaitRedirect]\<rparr>
         | AwaitRedirect \<Rightarrow> s\<lparr>requests := (requests s)[k := AwaitEnsureMsal]\<rparr>
         | AwaitEnsureMsal \<Rightarrow>
             (case knownAccount s of
                None \<Rightarrow>
                  s\<lparr>account := None,
                    openPrompts := openPrompts s @ [LoginPopup],
                    promptLog := promptLog s @ [LoginPopup],
                    requests := (requests s)[k := AwaitLoginPopup]\<rparr>
              | Some a \<Rightarrow>
                  s\<lparr>account := Some a, requests := (requests s)[k := AwaitEnsureAccount]\<rparr>)
         | AwaitLoginPopup \<Rightarrow>
             (case r of
                GotAccount a \<Rightarrow>
                  s\<lparr>account := Some a, activeAccount := Some a,
                    openPrompts := remove1 LoginPopup (openPrompts s),
                    requests := (requests s)[k := AwaitEnsureAccount]\<rparr>
              | Failed \<Rightarrow>
                  s\<lparr>openPrompts := remove1 LoginPopup (openPrompts s),
                    requests := (requests s)[k := Rejected]\<rparr>
              | _ \<Rightarrow> s)
         | AwaitEnsureAccount \<Rightarrow> s\<lparr>requests := (requests s)[k := AwaitSilent]\<rparr>
         | AwaitSilent \<Rightarrow>
             (case r of
                GotToken tok \<Rightarrow> s\<lparr>requests := (requests s)[k := Resolved tok]\<rparr>
              | Failed \<Rightarrow>
                  s\<lparr>openPrompts := openPrompts s @ [TokenPopup],
                    promptLog := promptLog s @ [TokenPopup],
                    requests := (requests s)[k := AwaitTokenPopup]\<rparr>
              | _ \<Rightarrow> s)
         | AwaitTokenPopup \<Rightarrow>
             (case r of
                GotToken tok \<Rightarrow>
                  s\<lparr>openPrompts := remove1 TokenPopup (openPrompts s),
                    requests := (requests s)[k := Resolved tok]\<rparr>
              | Failed \<Rightarrow>
                  s\<lparr>openPrompts := remove1 TokenPopup (openPrompts s),
                    requests := (requests s)[k := Rejected]\<rparr>
              | _ \<Rightarrow> s)
         | Resolved tok \<Rightarrow> s
         | Rejected \<Rightarrow> s))"

text \<open>
  One request served alone, from its call to its token, every promise fulfilled: the
  sign-in (if it is asked for) gives account \<open>a\<close>, the silent acquisition gives \<open>tok\<close>.
  The request is the last of the list, and it is resumed six times: that is one more
  than the longest path needs, and a settled request does not move.
\<close>

definition serveStep :: "account \<Rightarrow> string \<Rightarrow> session \<Rightarrow> session" where
  "serveStep a tok s =
     (let k = length (requests s) - 1 in
      case requests s ! k of
        AwaitLoginPopup \<Rightarrow> resume k (GotAccount a) s
      | AwaitSilent \<Rightarrow> resume k (GotToken tok) s
      | _ \<Rightarrow> resume k Done s)"

definition serve :: "account \<Rightarrow> string \<Rightarrow> session \<Rightarrow> session" where
  "serve a tok s = ((serveStep a tok) ^^ 6) (getAccessToken s)"

text \<open>The session of a component that has not asked for a credential yet.\<close>

definition noSession :: "string \<Rightarrow> session" where
  "noSession cid =
     \<lparr>clientId = cid, msal = False, activeAccount = None, allAccounts = [], account = None,
      openPrompts = [], promptLog = [], requests = []\<rparr>"

section \<open>Properties and example states\<close>

text \<open>Every row's \<open>order\<close> is its position plus one.\<close>

definition ordersOk :: "row list \<Rightarrow> bool" where
  "ordersOk rs = (map order rs = map Suc [0..<length rs])"

definition withinBounds :: "component \<Rightarrow> bool" where
  "withinBounds s = (minRows s \<le> int (length (rows s)) \<and> int (length (rows s)) \<le> maxRows s)"

text \<open>A handler returned, it did not throw.\<close>

definition returns :: "error + component \<Rightarrow> bool" where
  "returns x = (case x of Inl e \<Rightarrow> False | Inr s \<Rightarrow> True)"

text \<open>
  The events dispatched on the component (the change notification to the host), and
  the values written into the mirror element, as they stand in a trace.
\<close>

fun hostEvents :: "effect list \<Rightarrow> effect list" where
  "hostEvents [] = []"
| "hostEvents (NtxValueChange v # es) = NtxValueChange v # hostEvents es"
| "hostEvents (Change v # es) = Change v # hostEvents es"
| "hostEvents (e # es) = hostEvents es"

fun sinkWrites :: "effect list \<Rightarrow> string list" where
  "sinkWrites [] = []"
| "sinkWrites (SinkSet t v # es) = v # sinkWrites es"
| "sinkWrites (e # es) = sinkWrites es"

text \<open>
  Two rows, in editable mode, with the bound value in step with the rows: the example
  of the specification.
\<close>

definition alice :: row where
  "alice = \<lparr>order = 1, approver = ''alice@x.com''\<rparr>"

definition bob :: row where
  "bob = \<lparr>order = 2, approver = ''bob@x.com''\<rparr>"

definition twoRows :: component where
  "twoRows = created\<lparr>displayMode := False, rows := [alice, bob],
                      value_prop := stringify [alice, bob]\<rparr>"

text \<open>The same with what a load leaves for each row: a term, a selection, no suggestion.\<close>

definition alicePerson :: person where
  "alicePerson = \<lparr>id_person = ''1'', displayName = ''Alice'', email = Some ''alice@x.com'',
                   login = ''alice@x.com''\<rparr>"

definition bobPerson :: person where
  "bobPerson = \<lparr>id_person = ''2'', displayName = ''Bob'', email = Some ''bob@x.com'',
                 login = ''bob@x.com''\<rparr>"

definition twoPicked :: component where
  "twoPicked = twoRows\<lparr>
     terms := [0 \<mapsto> ''Alice'', 1 \<mapsto> ''Bob''],
     selections := [0 \<mapsto> Some alicePerson, 1 \<mapsto> Some bobPerson],
     suggestions := [1 \<mapsto> [alicePerson]]\<rparr>"

text \<open>Rows whose \<open>order\<close> fields are wrong, as a persisted value may hold them.\<close>

definition unordered :: "row list" where
  "unordered = [\<lparr>order = 7, approver = ''carol@x.com''\<rparr>, \<lparr>order = 7, approver = []\<rparr>,
                \<lparr>order = 0, approver = ''dave@x.com''\<rparr>]"

text \<open>A directory that grants a token and knows nobody.\<close>

definition emptyDirectory :: directory where
  "emptyDirectory = \<lparr>tokenFor = (\<lambda>sc. Some ''token''), userFor = (\<lambda>key. None)\<rparr>"

text \<open>The example state with a mirror element configured and present, and a stale bound value.\<close>

definition mirrored :: component where
  "mirrored = twoRows\<lparr>jsonTargetId := ''out'', targetFound := True, value_prop := ''[]''\<rparr>"

text \<open>An editable component that accepts at most two rows.\<close>

definition atMostTwo :: component where
  "atMostTwo = created\<lparr>displayMode := False, maxRows := 2\<rparr>"

text \<open>
  At most one callback of \<^verbatim>\<open>onRowInput\<close> is pending, and it is the one whose handle the
  field \<^verbatim>\<open>debounceTimer\<close> holds; the handle is older than the next one \<^verbatim>\<open>setTimeout\<close> gives.
\<close>

definition timerOk :: "component \<Rightarrow> bool" where
  "timerOk s =
     (length (timers s) \<le> 1 \<and>
      list_all (\<lambda>(h, i, v). debounceTimer s = Some h \<and> h < nextHandle s) (timers s))"

text \<open>In editable mode the list holds at least \<^verbatim>\<open>minRows\<close> rows.\<close>

definition lowerOk :: "component \<Rightarrow> bool" where
  "lowerOk s = (displayMode s \<or> minRows s \<le> int (length (rows s)))"

text \<open>The calls of \<^verbatim>\<open>graphSearch\<close>, as they stand in a trace.\<close>

fun searchCalls :: "effect list \<Rightarrow> (nat \<times> string) list" where
  "searchCalls [] = []"
| "searchCalls (SearchCall i v # es) = (i, v) # searchCalls es"
| "searchCalls (e # es) = searchCalls es"

text \<open>
  A burst of keystrokes in row \<open>i\<close>, each leaving the value \<open>v\<close> in the input element, with
  no timer running out in between; and the time after the burst, when every pending
  callback runs.
\<close>

definition burst :: "nat \<Rightarrow> string list \<Rightarrow> component \<Rightarrow> component" where
  "burst i vs s = foldl (\<lambda>s' v. onRowInput i v s') s vs"

definition fireAll :: "component \<Rightarrow> component" where
  "fireAll s = foldl (\<lambda>s' h. timerFire h s') s (map fst (timers s))"

text \<open>The example state when it accepts at most two rows.\<close>

definition twoFull :: component where
  "twoFull = twoRows\<lparr>maxRows := 2\<rparr>"

text \<open>The example state after the keystrokes \<^verbatim>\<open>al\<close> in its first row.\<close>

definition typedAl :: component where
  "typedAl = onRowInput 0 ''al'' twoRows"

text \<open>
  A query for \<^verbatim>\<open>al\<close> in the first row is dispatched and has its token; the user types on,
  the row's term is now \<^verbatim>\<open>bob\<close>; then the response for \<^verbatim>\<open>al\<close> arrives.
\<close>

definition aliceUser :: graph_user where
  "aliceUser = \<lparr>gu_id = ''1'', gu_displayName = ''Alice'', userPrincipalName = Some ''alice@x.com'',
                 mail = None\<rparr>"

definition bobUser :: graph_user where
  "bobUser = \<lparr>gu_id = ''2'', gu_displayName = ''Bob'', userPrincipalName = None,
               mail = Some ''bob@x.com''\<rparr>"

definition staleResponse :: component where
  "staleResponse =
     searchResolved 0 [aliceUser]
       (onRowInput 0 ''bob'' (tokenAcquired 0 (timerFire 1 typedAl)))"

text \<open>
  The same, but the query for \<^verbatim>\<open>bob\<close> is dispatched too and its response arrives first;
  the response for \<^verbatim>\<open>al\<close> arrives last.
\<close>

definition overtaken :: component where
  "overtaken =
     searchResolved 0 [aliceUser]
       (searchResolved 1 [bobUser]
          (tokenAcquired 1 (timerFire 2
             (onRowInput 0 ''bob'' (tokenAcquired 0 (timerFire 1 typedAl))))))"


text \<open>The two queries of the first row, once each has its token.\<close>

definition alQuery :: query where
  "alQuery = \<lparr>q_id = 0, q_index = 0, q_term = ''al'', q_phase = AwaitFetch\<rparr>"

text \<open>The second of them.\<close>

definition bobQuery :: query where
  "bobQuery = \<lparr>q_id = 1, q_index = 0, q_term = ''bob'', q_phase = AwaitFetch\<rparr>"

text \<open>Both queries of the first row are in flight, their requests sent.\<close>

definition twoInFlight :: component where
  "twoInFlight =
     tokenAcquired 1 (timerFire 2 (onRowInput 0 ''bob'' (tokenAcquired 0 (timerFire 1 typedAl))))"



text \<open>
  A session in which every request so far was served with account \<open>a\<close> and token \<open>tok\<close>,
  after one sign-in.
\<close>

definition settledWith :: "account \<Rightarrow> string \<Rightarrow> session \<Rightarrow> bool" where
  "settledWith a tok s =
     (msal s \<and> activeAccount s = Some a \<and> openPrompts s = [] \<and> promptLog s = [LoginPopup] \<and>
      list_all (\<lambda>p. p = Resolved tok) (requests s))"



text \<open>The query \<^verbatim>\<open>graphSearch\<close> leaves behind when it is called in display mode.\<close>

definition shortQuery :: query where
  "shortQuery = \<lparr>q_id = 0, q_index = 0, q_term = ''al'', q_phase = ShortCircuit\<rparr>"

section \<open>Auxiliary facts\<close>

lemma saveValue_keeps [simp]:
  "rows (saveValue s) = rows s" "terms (saveValue s) = terms s"
  "selections (saveValue s) = selections s" "suggestions (saveValue s) = suggestions s"
  "displayMode (saveValue s) = displayMode s" "minRows (saveValue s) = minRows s"
  "maxRows (saveValue s) = maxRows s" "timers (saveValue s) = timers s"
  "debounceTimer (saveValue s) = debounceTimer s" "errorMsg (saveValue s) = errorMsg s"
  "jsonTargetId (saveValue s) = jsonTargetId s" "targetFound (saveValue s) = targetFound s"
  "controlUtils (saveValue s) = controlUtils s"
  by (simp_all add: saveValue_def Let_def)

lemma backfill_done: "\<not> int (length rs) < m \<Longrightarrow> backfill m rs = rs"
  by (subst backfill.simps) simp

lemma backfill_more:
  "int (length rs) < m \<Longrightarrow>
   backfill m rs = backfill m (rs @ [\<lparr>order = length rs + 1, approver = []\<rparr>])"
  by (subst backfill.simps) simp

lemma length_backfill: "int (length (backfill m rs)) = max (int (length rs)) m"
proof (induction m rs rule: backfill.induct)
  case (1 m rs)
  show ?case
  proof (cases "int (length rs) < m")
    case True
    with 1 show ?thesis by (simp add: backfill_more [OF True])
  next
    case False
    then show ?thesis by (simp add: backfill_done)
  qed
qed

lemma backfill_nth: "i < length rs \<Longrightarrow> backfill m rs ! i = rs ! i"
proof (induction m rs rule: backfill.induct)
  case (1 m rs)
  show ?case
  proof (cases "int (length rs) < m")
    case True
    with 1 show ?thesis by (simp add: backfill_more [OF True] nth_append)
  next
    case False
    then show ?thesis by (simp add: backfill_done)
  qed
qed

lemma ordersOk_snoc:
  "ordersOk rs \<Longrightarrow> ordersOk (rs @ [\<lparr>order = Suc (length rs), approver = a\<rparr>])"
  by (simp add: ordersOk_def)

lemma ordersOk_backfill: "ordersOk rs \<Longrightarrow> ordersOk (backfill m rs)"
proof (induction m rs rule: backfill.induct)
  case (1 m rs)
  show ?case
  proof (cases "int (length rs) < m")
    case True
    with 1 show ?thesis by (simp add: backfill_more [OF True] ordersOk_snoc)
  next
    case False
    with 1 show ?thesis by (simp add: backfill_done)
  qed
qed

lemma length_renumberOrders [simp]: "length (renumberOrders rs) = length rs"
  by (simp add: renumberOrders_def)

lemma renumberOrders_nth:
  "i < length rs \<Longrightarrow> renumberOrders rs ! i = (rs ! i)\<lparr>order := i + 1\<rparr>"
  by (simp add: renumberOrders_def nth_enumerate_eq)

lemma ordersOk_nth: "ordersOk rs = (\<forall>i<length rs. order (rs ! i) = i + 1)"
  unfolding ordersOk_def by (subst list_eq_iff_nth_eq) simp

lemma ordersOk_renumberOrders: "ordersOk (renumberOrders rs)"
  by (simp add: ordersOk_nth renumberOrders_nth)

lemma renumberOrders_fixed: "ordersOk rs \<Longrightarrow> renumberOrders rs = rs"
  by (subst list_eq_iff_nth_eq) (simp add: renumberOrders_nth ordersOk_nth)

lemma renumberOrders_idem: "renumberOrders (renumberOrders rs) = renumberOrders rs"
  by (rule renumberOrders_fixed) (rule ordersOk_renumberOrders)

lemma ordersOk_image: "ordersOk rs \<Longrightarrow> order ` set rs = {1..length rs}"
proof -
  assume ok: "ordersOk rs"
  have "order ` set rs = set (map order rs)" by simp
  also have "\<dots> = set (map Suc [0..<length rs])" using ok by (simp only: ordersOk_def)
  also have "\<dots> = {1..length rs}"
    by (simp add: image_Suc_atLeastLessThan atLeastLessThanSuc_atLeastAtMost)
  finally show ?thesis .
qed

lemma rows_ensureMinRows:
  "rows (ensureMinRows s) = (if displayMode s then rows s else backfill (minRows s) (rows s))"
  by (simp add: ensureMinRows_def)

lemma ensureMinRows_keeps [simp]:
  "terms (ensureMinRows s) = terms s" "selections (ensureMinRows s) = selections s"
  "suggestions (ensureMinRows s) = suggestions s" "displayMode (ensureMinRows s) = displayMode s"
  "minRows (ensureMinRows s) = minRows s" "maxRows (ensureMinRows s) = maxRows s"
  "timers (ensureMinRows s) = timers s" "debounceTimer (ensureMinRows s) = debounceTimer s"
  by (simp_all add: ensureMinRows_def)

lemma hydrateRow_keeps [simp]:
  "rows (hydrateRow d i r s) = rows s" "displayMode (hydrateRow d i r s) = displayMode s"
  "minRows (hydrateRow d i r s) = minRows s" "maxRows (hydrateRow d i r s) = maxRows s"
  "timers (hydrateRow d i r s) = timers s" "debounceTimer (hydrateRow d i r s) = debounceTimer s"
  "scopes (hydrateRow d i r s) = scopes s"
  by (simp_all add: hydrateRow_def Let_def split: option.splits)

lemma hydrate_keeps [simp]:
  "rows (hydrate d irs s) = rows s" "displayMode (hydrate d irs s) = displayMode s"
  "minRows (hydrate d irs s) = minRows s" "maxRows (hydrate d irs s) = maxRows s"
  "timers (hydrate d irs s) = timers s" "debounceTimer (hydrate d irs s) = debounceTimer s"
  "scopes (hydrate d irs s) = scopes s"
  by (induction d irs s rule: hydrate.induct; simp)+

lemma rows_loadValue:
  "rows (loadValue p d s) =
     (let rs = renumberOrders (case p of Array rs \<Rightarrow> rs | _ \<Rightarrow> [])
      in if displayMode s then rs else backfill (minRows s) rs)"
  by (simp add: loadValue_def Let_def rows_ensureMinRows)

lemma rows_addRow:
  "rows (addRow s) =
     (if displayMode s \<or> int (length (rows s)) \<ge> maxRows s then rows s
      else rows s @ [\<lparr>order = length (rows s) + 1, approver = []\<rparr>])"
  by (simp add: addRow_def)

lemma rows_removeRow:
  "rows (removeRow i s) =
     (if displayMode s then rows s
      else backfill (minRows s) (renumberOrders (splice1 i (rows s))))"
  by (simp add: removeRow_def Let_def rows_ensureMinRows)

lemma rows_moveDown:
  "rows (moveDown i s) =
     (if displayMode s \<or> int i \<ge> int (length (rows s)) - 1 then rows s
      else renumberOrders ((rows s)[i + 1 := rows s ! i, i := rows s ! (i + 1)]))"
  by (simp add: moveDown_def)

lemma rows_moveUp:
  "moveUp i s = Inr s' \<Longrightarrow>
   rows s' =
     (if displayMode s \<or> i \<le> 0 then rows s
      else renumberOrders ((rows s)[i - 1 := rows s ! i, i := rows s ! (i - 1)]))"
  by (auto simp: moveUp_def split: if_splits)

lemma ordersOk_loadValue: "ordersOk (rows (loadValue p d s))"
  by (simp add: rows_loadValue Let_def ordersOk_renumberOrders ordersOk_backfill)

lemma ordersOk_addRow: "ordersOk (rows s) \<Longrightarrow> ordersOk (rows (addRow s))"
  by (simp add: rows_addRow ordersOk_snoc)

lemma ordersOk_removeRow: "ordersOk (rows s) \<Longrightarrow> ordersOk (rows (removeRow i s))"
  by (simp add: rows_removeRow ordersOk_renumberOrders ordersOk_backfill)

lemma ordersOk_moveDown: "ordersOk (rows s) \<Longrightarrow> ordersOk (rows (moveDown i s))"
  by (simp add: rows_moveDown ordersOk_renumberOrders)

lemma ordersOk_moveUp: "ordersOk (rows s) \<Longrightarrow> moveUp i s = Inr s' \<Longrightarrow> ordersOk (rows s')"
  by (simp add: rows_moveUp ordersOk_renumberOrders)

lemma ordersOk_ensureMinRows: "ordersOk (rows s) \<Longrightarrow> ordersOk (rows (ensureMinRows s))"
  by (simp add: rows_ensureMinRows ordersOk_backfill)

lemma returns_iff: "returns x = (\<exists>s. x = Inr s)"
  by (cases x) (simp_all add: returns_def)

lemma length_splice1: "index < length xs \<Longrightarrow> length (splice1 index xs) = length xs - 1"
  by (simp add: splice1_def)

lemma length_splice1_le: "length (splice1 index xs) \<le> length xs"
  by (simp add: splice1_def)

lemma splice1_nth:
  "index < length xs \<Longrightarrow> i < length xs - 1 \<Longrightarrow>
   splice1 index xs ! i = xs ! (if i < index then i else i + 1)"
  by (simp add: splice1_def nth_append min_def)

lemma hostEvents_append: "hostEvents (xs @ ys) = hostEvents xs @ hostEvents ys"
  by (induction xs rule: hostEvents.induct) simp_all

lemma sinkWrites_append: "sinkWrites (xs @ ys) = sinkWrites xs @ sinkWrites ys"
  by (induction xs rule: sinkWrites.induct) simp_all

lemma value_saveValue:
  "value_prop (saveValue s) = (if displayMode s then value_prop s else stringify (rows s))"
  by (simp add: saveValue_def Let_def)

lemma hostEvents_saveValue:
  "hostEvents (trace (saveValue s)) =
     hostEvents (trace s) @
     (if \<not> displayMode s \<and> value_prop s \<noteq> stringify (rows s)
      then [NtxValueChange (stringify (rows s)), Change (stringify (rows s))] else [])"
  by (simp add: saveValue_def Let_def hostEvents_append)

lemma sinkWrites_saveValue:
  "sinkWrites (trace (saveValue s)) =
     sinkWrites (trace s) @
     (if \<not> displayMode s \<and> jsonTargetId s \<noteq> [] \<and> targetFound s
      then [stringifyPretty (rows s)] else [])"
  by (simp add: saveValue_def Let_def sinkWrites_append)

section \<open>Saving\<close>

text \<open>
  Claim C4, amended. What \<^verbatim>\<open>saveValue\<close> dispatches on the component is decided by the
  comparison of the bound value with the compact form: a second save with nothing
  changed in between dispatches nothing, and the first dispatches the pair
  \<^verbatim>\<open>ntx-value-change\<close>, \<^verbatim>\<open>change\<close> once when the compact form differs from the bound value
  and nothing when it does not. The mirror element is outside that comparison: in
  editable mode, when it is configured and found, each save writes the pretty-printed
  form into it, so two saves write it twice.
\<close>

theorem saveValue_twice:
  "hostEvents (trace (saveValue (saveValue s))) = hostEvents (trace (saveValue s)) \<and>
   hostEvents (trace (saveValue s)) =
     hostEvents (trace s) @
     (if \<not> displayMode s \<and> value_prop s \<noteq> stringify (rows s)
      then [NtxValueChange (stringify (rows s)), Change (stringify (rows s))] else []) \<and>
   (\<not> displayMode s \<and> jsonTargetId s \<noteq> [] \<and> targetFound s \<longrightarrow>
      sinkWrites (trace (saveValue (saveValue s))) =
        sinkWrites (trace s) @ [stringifyPretty (rows s), stringifyPretty (rows s)])"
proof (intro conjI impI)
  show "hostEvents (trace (saveValue (saveValue s))) = hostEvents (trace (saveValue s))"
    by (simp add: hostEvents_saveValue [of "saveValue s"] value_saveValue)
  show "hostEvents (trace (saveValue s)) =
     hostEvents (trace s) @
     (if \<not> displayMode s \<and> value_prop s \<noteq> stringify (rows s)
      then [NtxValueChange (stringify (rows s)), Change (stringify (rows s))] else [])"
    by (rule hostEvents_saveValue)
  assume "\<not> displayMode s \<and> jsonTargetId s \<noteq> [] \<and> targetFound s"
  then show "sinkWrites (trace (saveValue (saveValue s))) =
        sinkWrites (trace s) @ [stringifyPretty (rows s), stringifyPretty (rows s)]"
    by (simp add: sinkWrites_saveValue [of "saveValue s"] sinkWrites_saveValue [of s])
qed

theorem saveValue_twice_witness:
  "\<not> displayMode mirrored \<and> jsonTargetId mirrored \<noteq> [] \<and> targetFound mirrored \<and>
   hostEvents (trace (saveValue (saveValue mirrored))) = hostEvents (trace (saveValue mirrored)) \<and>
   sinkWrites (trace (saveValue (saveValue mirrored))) =
     sinkWrites (trace mirrored) @
     [stringifyPretty (rows mirrored), stringifyPretty (rows mirrored)]"
proof -
  have h: "\<not> displayMode mirrored \<and> jsonTargetId mirrored \<noteq> [] \<and> targetFound mirrored"
    by (simp add: mirrored_def twoRows_def created_def)
  from saveValue_twice [of mirrored] h show ?thesis by blast
qed

text \<open>
  Claim C4 as stated fails: for the example state with a mirror element, two saves in a
  row write the mirror element twice, while the host is notified once.
\<close>

theorem mirror_written_twice:
  "length (sinkWrites (trace (saveValue (saveValue mirrored)))) = 2 \<and>
   hostEvents (trace (saveValue (saveValue mirrored))) =
     [NtxValueChange (stringify [alice, bob]), Change (stringify [alice, bob])]"
  by code_simp

section \<open>Removing a row\<close>

text \<open>
  Claim C5. In editable mode, for a position \<open>index\<close> of the list, \<^verbatim>\<open>removeRow(index)\<close>
  leaves at every surviving position \<open>i\<close> what stood at \<open>i\<close> before when \<open>i < index\<close>, and
  what stood at \<open>i + 1\<close> otherwise: the term, the selection and the suggestions (read
  as the component reads them, a missing entry being the empty term, no selection and
  no suggestions), and the approver of the row. The handler is one step of the model:
  the rows and the three maps change together.
\<close>

theorem removeRow_remap:
  assumes "\<not> displayMode s" and "index < length (rows s)" and "i < length (rows s) - 1"
  shows "termAt (terms (removeRow index s)) i = termAt (terms s) (if i < index then i else i + 1) \<and>
         selectionAt (selections (removeRow index s)) i =
           selectionAt (selections s) (if i < index then i else i + 1) \<and>
         suggestionsAt (suggestions (removeRow index s)) i =
           suggestionsAt (suggestions s) (if i < index then i else i + 1) \<and>
         approver (rows (removeRow index s) ! i) =
           approver (rows s ! (if i < index then i else i + 1))"
proof -
  let ?rs = "splice1 index (rows s)"
  have len: "i < length ?rs" using assms by (simp add: length_splice1)
  have t: "terms (removeRow index s) i = Some (termAt (terms s) (if i < index then i else i + 1))"
    using assms(1) len by (simp add: removeRow_def Let_def)
  have se: "selections (removeRow index s) i =
      Some (selectionAt (selections s) (if i < index then i else i + 1))"
    using assms(1) len by (simp add: removeRow_def Let_def)
  have su: "suggestions (removeRow index s) i =
      Some (suggestionsAt (suggestions s) (if i < index then i else i + 1))"
    using assms(1) len by (simp add: removeRow_def Let_def)
  have "rows (removeRow index s) ! i = (?rs ! i)\<lparr>order := i + 1\<rparr>"
    using assms(1) len by (simp add: rows_removeRow backfill_nth renumberOrders_nth)
  then have r: "approver (rows (removeRow index s) ! i) =
      approver (rows s ! (if i < index then i else i + 1))"
    using assms by (simp add: splice1_nth)
  from t se su r show ?thesis
    by (simp add: termAt_def selectionAt_def suggestionsAt_def)
qed

theorem removeRow_remap_witness:
  "\<not> displayMode twoPicked \<and> 0 < length (rows twoPicked) \<and> 0 < length (rows twoPicked) - 1 \<and>
   termAt (terms (removeRow 0 twoPicked)) 0 = ''Bob'' \<and>
   selectionAt (selections (removeRow 0 twoPicked)) 0 = Some bobPerson \<and>
   suggestionsAt (suggestions (removeRow 0 twoPicked)) 0 = [alicePerson] \<and>
   approver (rows (removeRow 0 twoPicked) ! 0) = ''bob@x.com''"
proof -
  have h: "\<not> displayMode twoPicked" "0 < length (rows twoPicked)" "0 < length (rows twoPicked) - 1"
    by (simp_all add: twoPicked_def twoRows_def created_def)
  have v: "termAt (terms twoPicked) 1 = ''Bob''" "selectionAt (selections twoPicked) 1 = Some bobPerson"
    "suggestionsAt (suggestions twoPicked) 1 = [alicePerson]" "approver (rows twoPicked ! 1) = ''bob@x.com''"
    by (simp_all add: twoPicked_def twoRows_def created_def termAt_def selectionAt_def
        suggestionsAt_def bob_def)
  from removeRow_remap [OF h] h v show ?thesis by simp
qed

text \<open>The example of the specification: removing the first of the two rows.\<close>

lemma removeRow_example:
  "rows (removeRow 0 twoRows) = [\<lparr>order = 1, approver = ''bob@x.com''\<rparr>]"
  by code_simp

section \<open>Renumbering\<close>

lemma map_order_update:
  "i < length rs \<Longrightarrow> map order (rs[i := (rs ! i)\<lparr>approver := a\<rparr>]) = map order rs"
  by (simp add: map_update list_update_same_conv)

lemma rows_onRowInput [simp]: "rows (onRowInput i v s) = rows s"
  by (simp add: onRowInput_def Let_def split: option.splits)

lemma rows_graphSearch [simp]: "rows (graphSearch i v s) = rows s"
  by (simp add: graphSearch_def Let_def)

lemma rows_timerFire [simp]: "rows (timerFire h s) = rows s"
  by (simp add: timerFire_def split: option.splits prod.splits)

lemma rows_tokenAcquired [simp]: "rows (tokenAcquired k s) = rows s"
  by (simp add: tokenAcquired_def split: option.splits)

lemma rows_searchResolved [simp]: "rows (searchResolved k us s) = rows s"
  by (simp add: searchResolved_def Let_def split: option.splits)

lemma rows_searchFailed [simp]: "rows (searchFailed k msg s) = rows s"
  by (simp add: searchFailed_def split: option.splits)

lemma order_onPick: "onPick i p s = Inr s' \<Longrightarrow> map order (rows s') = map order (rows s)"
  by (auto simp: onPick_def Let_def map_order_update split: if_splits)

lemma order_clearRow: "clearRow i s = Inr s' \<Longrightarrow> map order (rows s') = map order (rows s)"
  by (auto simp: clearRow_def map_order_update split: if_splits)

lemma length_onPick: "onPick i p s = Inr s' \<Longrightarrow> length (rows s') = length (rows s)"
  by (auto simp: onPick_def Let_def split: if_splits)

lemma length_clearRow: "clearRow i s = Inr s' \<Longrightarrow> length (rows s') = length (rows s)"
  by (auto simp: clearRow_def split: if_splits)

lemma ordersOk_cong: "map order rs' = map order rs \<Longrightarrow> ordersOk rs \<Longrightarrow> ordersOk rs'"
proof -
  assume m: "map order rs' = map order rs" and ok: "ordersOk rs"
  from m have "length rs' = length rs" by (rule map_eq_imp_length_eq)
  with m ok show ?thesis by (simp add: ordersOk_def)
qed

lemma ordersOk_step: "ordersOk (rows s) \<Longrightarrow> step e s = Inr s' \<Longrightarrow> ordersOk (rows s')"
proof (cases e)
  case (FirstUpdated host p d)
  assume "step e s = Inr s'"
  with FirstUpdated show ?thesis by (auto simp: firstUpdated_def ordersOk_loadValue)
next
  case (Pick i p)
  assume "ordersOk (rows s)" "step e s = Inr s'"
  with Pick show ?thesis by (auto intro: ordersOk_cong [OF order_onPick])
next
  case (Clear i)
  assume "ordersOk (rows s)" "step e s = Inr s'"
  with Clear show ?thesis by (auto intro: ordersOk_cong [OF order_clearRow])
next
  case (MoveUp i)
  assume "ordersOk (rows s)" "step e s = Inr s'"
  with MoveUp show ?thesis by (auto intro: ordersOk_moveUp)
qed (auto simp: ordersOk_addRow ordersOk_removeRow ordersOk_moveDown)

lemma ordersOk_run: "ordersOk (rows s) \<Longrightarrow> run es s = Inr s' \<Longrightarrow> ordersOk (rows s')"
proof (induction es arbitrary: s)
  case Nil
  then show ?case by simp
next
  case (Cons e es)
  then show ?case by (auto split: sum.splits dest: ordersOk_step)
qed

text \<open>
  Claim C8. \<^verbatim>\<open>renumberOrders\<close> sets every \<open>order\<close> to the position plus one and is
  idempotent. The empty list of a new component is so numbered, and a load leaves the
  rows so numbered, whatever the persisted value held.
  From rows so numbered, \<^verbatim>\<open>addRow\<close>, \<^verbatim>\<open>removeRow\<close>, \<^verbatim>\<open>moveUp\<close>, \<^verbatim>\<open>moveDown\<close> and the backfill
  of \<^verbatim>\<open>ensureMinRows\<close> give rows so numbered, and so does every run of handlers. For
  rows so numbered the set of the \<open>order\<close> values of \<open>N\<close> rows is \<open>{1..N}\<close>.
\<close>

theorem renumbering_invariant:
  "ordersOk (rows created) \<and>
   ordersOk (renumberOrders rs) \<and>
   renumberOrders (renumberOrders rs) = renumberOrders rs \<and>
   ordersOk (rows (loadValue p d s)) \<and>
   (ordersOk (rows s) \<longrightarrow>
      ordersOk (rows (addRow s)) \<and>
      ordersOk (rows (removeRow i s)) \<and>
      ordersOk (rows (moveDown i s)) \<and>
      ordersOk (rows (ensureMinRows s)) \<and>
      (\<forall>s'. moveUp i s = Inr s' \<longrightarrow> ordersOk (rows s')) \<and>
      (\<forall>es s'. run es s = Inr s' \<longrightarrow> ordersOk (rows s'))) \<and>
   (ordersOk rs' \<longrightarrow>
      order ` set rs' = {1..length rs'} \<and> (\<forall>k<length rs'. order (rs' ! k) = k + 1))"
proof (intro conjI impI allI)
  show "ordersOk (rows created)" by (simp add: ordersOk_def created_def)
  show "ordersOk (renumberOrders rs)" by (rule ordersOk_renumberOrders)
  show "renumberOrders (renumberOrders rs) = renumberOrders rs" by (rule renumberOrders_idem)
  show "ordersOk (rows (loadValue p d s))" by (rule ordersOk_loadValue)
next
  assume "ordersOk (rows s)"
  then show "ordersOk (rows (addRow s))" by (rule ordersOk_addRow)
next
  assume "ordersOk (rows s)"
  then show "ordersOk (rows (removeRow i s))" by (rule ordersOk_removeRow)
next
  assume "ordersOk (rows s)"
  then show "ordersOk (rows (moveDown i s))" by (rule ordersOk_moveDown)
next
  assume "ordersOk (rows s)"
  then show "ordersOk (rows (ensureMinRows s))" by (rule ordersOk_ensureMinRows)
next
  fix s' assume "ordersOk (rows s)" "moveUp i s = Inr s'"
  then show "ordersOk (rows s')" by (rule ordersOk_moveUp)
next
  fix es s' assume "ordersOk (rows s)" "run es s = Inr s'"
  then show "ordersOk (rows s')" by (rule ordersOk_run)
next
  assume "ordersOk rs'"
  then show "order ` set rs' = {1..length rs'}" by (rule ordersOk_image)
next
  fix k assume "ordersOk rs'" "k < length rs'"
  then show "order (rs' ! k) = k + 1" by (simp add: ordersOk_nth)
qed

theorem renumbering_invariant_witness:
  "ordersOk (rows twoRows) \<and>
   map order (renumberOrders unordered) = [1, 2, 3] \<and>
   ordersOk (rows (loadValue (Array unordered) emptyDirectory twoRows)) \<and>
   ordersOk (rows (addRow twoRows)) \<and>
   ordersOk (rows (removeRow 1 twoRows)) \<and>
   ordersOk (rows (moveDown 1 twoRows)) \<and>
   (\<exists>s'. moveUp 1 twoRows = Inr s' \<and> ordersOk (rows s')) \<and>
   (\<exists>s'. run [Add, MoveUp 2, Remove 0, MoveDown 0] twoRows = Inr s' \<and> ordersOk (rows s')) \<and>
   order ` set (rows twoRows) = {1..length (rows twoRows)}"
proof -
  have ok: "ordersOk (rows twoRows)" by code_simp
  have up: "\<exists>s'. moveUp 1 twoRows = Inr s'"
    unfolding returns_iff [symmetric] by code_simp
  have go: "\<exists>s'. run [Add, MoveUp 2, Remove 0, MoveDown 0] twoRows = Inr s'"
    unfolding returns_iff [symmetric] by code_simp
  have re: "map order (renumberOrders unordered) = [1, 2, 3]" by code_simp
  note inv = renumbering_invariant
    [where rs = unordered and p = "Array unordered" and d = emptyDirectory and s = twoRows
      and i = 1 and rs' = "rows twoRows"]
  from inv ok up go re show ?thesis by blast
qed

section \<open>Row bounds\<close>

lemma lowerOk_loadValue: "\<not> displayMode s \<Longrightarrow> minRows s \<le> int (length (rows (loadValue p d s)))"
  by (simp add: rows_loadValue Let_def length_backfill)

lemma lowerOk_removeRow: "\<not> displayMode s \<Longrightarrow> minRows s \<le> int (length (rows (removeRow i s)))"
  by (simp add: rows_removeRow length_backfill)

lemma addRow_full: "maxRows s \<le> int (length (rows s)) \<Longrightarrow> addRow s = s"
  by (simp add: addRow_def)

lemma config_addRow [simp]:
  "minRows (addRow s) = minRows s" "maxRows (addRow s) = maxRows s"
  "displayMode (addRow s) = displayMode s"
  by (simp_all add: addRow_def)

lemma config_removeRow [simp]:
  "minRows (removeRow i s) = minRows s" "maxRows (removeRow i s) = maxRows s"
  "displayMode (removeRow i s) = displayMode s"
  by (simp_all add: removeRow_def Let_def)

lemma config_moveDown [simp]:
  "minRows (moveDown i s) = minRows s" "maxRows (moveDown i s) = maxRows s"
  "displayMode (moveDown i s) = displayMode s"
  by (simp_all add: moveDown_def)

lemma config_moveUp:
  "moveUp i s = Inr s' \<Longrightarrow>
   minRows s' = minRows s \<and> maxRows s' = maxRows s \<and> displayMode s' = displayMode s \<and>
   length (rows s') = length (rows s)"
  by (auto simp: moveUp_def split: if_splits)

lemma config_onPick:
  "onPick i p s = Inr s' \<Longrightarrow> minRows s' = minRows s \<and> displayMode s' = displayMode s"
  by (auto simp: onPick_def Let_def split: if_splits)

lemma config_clearRow:
  "clearRow i s = Inr s' \<Longrightarrow> minRows s' = minRows s \<and> displayMode s' = displayMode s"
  by (auto simp: clearRow_def split: if_splits)

lemma config_loadValue [simp]:
  "minRows (loadValue p d s) = minRows s" "maxRows (loadValue p d s) = maxRows s"
  "displayMode (loadValue p d s) = displayMode s"
  by (simp_all add: loadValue_def Let_def)

lemma config_onRowInput [simp]:
  "minRows (onRowInput i v s) = minRows s" "displayMode (onRowInput i v s) = displayMode s"
  by (simp_all add: onRowInput_def Let_def split: option.splits)

lemma config_graphSearch [simp]:
  "minRows (graphSearch i v s) = minRows s" "displayMode (graphSearch i v s) = displayMode s"
  by (simp_all add: graphSearch_def Let_def)

lemma config_timerFire [simp]:
  "minRows (timerFire h s) = minRows s" "displayMode (timerFire h s) = displayMode s"
  by (simp_all add: timerFire_def split: option.splits prod.splits)

lemma config_tokenAcquired [simp]:
  "minRows (tokenAcquired k s) = minRows s" "displayMode (tokenAcquired k s) = displayMode s"
  by (simp_all add: tokenAcquired_def split: option.splits)

lemma config_searchResolved [simp]:
  "minRows (searchResolved k us s) = minRows s" "displayMode (searchResolved k us s) = displayMode s"
  by (simp_all add: searchResolved_def Let_def split: option.splits)

lemma config_searchFailed [simp]:
  "minRows (searchFailed k msg s) = minRows s" "displayMode (searchFailed k msg s) = displayMode s"
  by (simp_all add: searchFailed_def split: option.splits)

lemma length_rows_moveDown: "length (rows (moveDown i s)) = length (rows s)"
  by (simp add: rows_moveDown)

lemma length_rows_addRow: "length (rows s) \<le> length (rows (addRow s))"
  by (simp add: rows_addRow)

lemma lowerOk_step: "lowerOk s \<Longrightarrow> step e s = Inr s' \<Longrightarrow> lowerOk s'"
proof (cases e)
  case (FirstUpdated host p d)
  assume "step e s = Inr s'"
  with FirstUpdated have s': "s' = loadValue p d (s\<lparr>displayMode := isDisplayMode s host\<rparr>)"
    by (simp add: firstUpdated_def)
  show ?thesis
  proof (cases "isDisplayMode s host")
    case True
    then show ?thesis by (simp add: lowerOk_def s')
  next
    case False
    with lowerOk_loadValue [of "s\<lparr>displayMode := isDisplayMode s host\<rparr>" p d]
    show ?thesis by (simp add: lowerOk_def s')
  qed
next
  case (Pick i p)
  assume "lowerOk s" "step e s = Inr s'"
  with Pick show ?thesis
    using config_onPick [of i p s s'] length_onPick [of i p s s'] by (auto simp: lowerOk_def)
next
  case (Clear i)
  assume "lowerOk s" "step e s = Inr s'"
  with Clear show ?thesis
    using config_clearRow [of i s s'] length_clearRow [of i s s'] by (auto simp: lowerOk_def)
next
  case Add
  assume "lowerOk s" "step e s = Inr s'"
  with Add show ?thesis using length_rows_addRow [of s] by (auto simp: lowerOk_def)
next
  case (Remove i)
  assume "lowerOk s" "step e s = Inr s'"
  with Remove show ?thesis by (cases "displayMode s") (auto simp: lowerOk_def lowerOk_removeRow)
next
  case (MoveUp i)
  assume "lowerOk s" "step e s = Inr s'"
  with MoveUp show ?thesis using config_moveUp [of i s s'] by (auto simp: lowerOk_def)
next
  case (MoveDown i)
  assume "lowerOk s" "step e s = Inr s'"
  with MoveDown show ?thesis by (auto simp: lowerOk_def length_rows_moveDown)
qed (auto simp: lowerOk_def)

lemma lowerOk_run: "lowerOk s \<Longrightarrow> run es s = Inr s' \<Longrightarrow> lowerOk s'"
proof (induction es arbitrary: s)
  case Nil
  then show ?case by simp
next
  case (Cons e es)
  then show ?case by (auto split: sum.splits dest: lowerOk_step)
qed

lemma withinBounds_addRow: "withinBounds s \<Longrightarrow> withinBounds (addRow s)"
  by (auto simp: withinBounds_def rows_addRow)

lemma withinBounds_removeRow: "withinBounds s \<Longrightarrow> withinBounds (removeRow i s)"
  using length_splice1_le [of i "rows s"]
  by (auto simp: withinBounds_def rows_removeRow length_backfill)

lemma withinBounds_moveDown: "withinBounds s \<Longrightarrow> withinBounds (moveDown i s)"
  by (simp add: withinBounds_def length_rows_moveDown)

lemma withinBounds_moveUp: "withinBounds s \<Longrightarrow> moveUp i s = Inr s' \<Longrightarrow> withinBounds s'"
  using config_moveUp [of i s s'] by (auto simp: withinBounds_def)

lemma withinBounds_loadValue:
  "\<not> displayMode s \<Longrightarrow> int (length rs) \<le> maxRows s \<Longrightarrow> minRows s \<le> maxRows s \<Longrightarrow>
   withinBounds (loadValue (Array rs) d s)"
  by (simp add: withinBounds_def rows_loadValue length_backfill)

text \<open>
  Claim C3, amended. In editable mode the lower bound holds after a load and after a
  removal, and in every state a run of handlers reaches from a state where it holds.
  \<^verbatim>\<open>addRow\<close> changes nothing once the list holds \<^verbatim>\<open>maxRows\<close> rows or more. The handlers
  \<^verbatim>\<open>addRow\<close>, \<^verbatim>\<open>removeRow\<close>, \<^verbatim>\<open>moveUp\<close>, \<^verbatim>\<open>moveDown\<close> keep both bounds when both hold. A load
  gives both bounds when the persisted array holds at most \<^verbatim>\<open>maxRows\<close> rows and
  \<^verbatim>\<open>minRows\<close> is at most \<^verbatim>\<open>maxRows\<close>: \<^verbatim>\<open>loadValue\<close> never drops a row.
\<close>

theorem row_bounds:
  "(\<not> displayMode s \<longrightarrow>
      minRows s \<le> int (length (rows (loadValue p d s))) \<and>
      minRows s \<le> int (length (rows (removeRow i s)))) \<and>
   (lowerOk s \<longrightarrow> (\<forall>es s'. run es s = Inr s' \<longrightarrow> lowerOk s')) \<and>
   (maxRows s \<le> int (length (rows s)) \<longrightarrow> addRow s = s) \<and>
   (withinBounds s \<longrightarrow>
      withinBounds (addRow s) \<and> withinBounds (removeRow i s) \<and> withinBounds (moveDown i s) \<and>
      (\<forall>s'. moveUp i s = Inr s' \<longrightarrow> withinBounds s')) \<and>
   (\<not> displayMode s \<and> int (length rs) \<le> maxRows s \<and> minRows s \<le> maxRows s \<longrightarrow>
      withinBounds (loadValue (Array rs) d s))"
proof (intro conjI impI allI)
  assume "\<not> displayMode s"
  then show "minRows s \<le> int (length (rows (loadValue p d s)))" by (rule lowerOk_loadValue)
next
  assume "\<not> displayMode s"
  then show "minRows s \<le> int (length (rows (removeRow i s)))" by (rule lowerOk_removeRow)
next
  fix es s' assume "lowerOk s" "run es s = Inr s'"
  then show "lowerOk s'" by (rule lowerOk_run)
next
  assume "maxRows s \<le> int (length (rows s))"
  then show "addRow s = s" by (rule addRow_full)
next
  assume "withinBounds s"
  then show "withinBounds (addRow s)" by (rule withinBounds_addRow)
next
  assume "withinBounds s"
  then show "withinBounds (removeRow i s)" by (rule withinBounds_removeRow)
next
  assume "withinBounds s"
  then show "withinBounds (moveDown i s)" by (rule withinBounds_moveDown)
next
  fix s' assume "withinBounds s" "moveUp i s = Inr s'"
  then show "withinBounds s'" by (rule withinBounds_moveUp)
next
  assume "\<not> displayMode s \<and> int (length rs) \<le> maxRows s \<and> minRows s \<le> maxRows s"
  then show "withinBounds (loadValue (Array rs) d s)" by (simp add: withinBounds_loadValue)
qed

theorem row_bounds_witness:
  "\<not> displayMode twoFull \<and> lowerOk twoFull \<and> withinBounds twoFull \<and>
   maxRows twoFull \<le> int (length (rows twoFull)) \<and>
   int (length [alice, bob]) \<le> maxRows twoFull \<and> minRows twoFull \<le> maxRows twoFull \<and>
   minRows twoFull \<le> int (length (rows (loadValue ParseError emptyDirectory twoFull))) \<and>
   minRows twoFull \<le> int (length (rows (removeRow 1 twoFull))) \<and>
   (\<exists>s'. run [Remove 0, Remove 0, Add, Add, Add] twoFull = Inr s' \<and> lowerOk s') \<and>
   addRow twoFull = twoFull \<and>
   withinBounds (removeRow 1 twoFull) \<and>
   (\<exists>s'. moveUp 1 twoFull = Inr s' \<and> withinBounds s') \<and>
   withinBounds (loadValue (Array [alice, bob]) emptyDirectory twoFull)"
proof -
  have h: "\<not> displayMode twoFull" "lowerOk twoFull" "withinBounds twoFull"
    "maxRows twoFull \<le> int (length (rows twoFull))"
    "int (length [alice, bob]) \<le> maxRows twoFull" "minRows twoFull \<le> maxRows twoFull"
    by (simp_all add: twoFull_def twoRows_def created_def lowerOk_def withinBounds_def)
  have up: "\<exists>s'. moveUp 1 twoFull = Inr s'"
    unfolding returns_iff [symmetric] by code_simp
  have go: "\<exists>s'. run [Remove 0, Remove 0, Add, Add, Add] twoFull = Inr s'"
    unfolding returns_iff [symmetric] by code_simp
  note b = row_bounds [of twoFull ParseError emptyDirectory 1 "[alice, bob]"]
  from b h up go show ?thesis by blast
qed

text \<open>
  Claim C3 as stated fails: an editable component that accepts at most two rows loads a
  persisted array of three rows as it is.
\<close>

theorem load_keeps_excess_rows:
  "\<not> displayMode (loadValue (Array unordered) emptyDirectory atMostTwo) \<and>
   maxRows (loadValue (Array unordered) emptyDirectory atMostTwo) = 2 \<and>
   length (rows (loadValue (Array unordered) emptyDirectory atMostTwo)) = 3"
  by code_simp

section \<open>The debounce timer\<close>

lemma timerOk_created: "timerOk created"
  by (simp add: timerOk_def created_def)

lemma timerOk_cases:
  "timerOk s \<Longrightarrow>
   timers s = [] \<or> (\<exists>h i v. timers s = [(h, i, v)] \<and> debounceTimer s = Some h \<and> h < nextHandle s)"
proof (cases "timers s")
  case Nil
  then show ?thesis by simp
next
  case (Cons t ts)
  assume "timerOk s"
  with Cons show ?thesis by (cases t) (simp add: timerOk_def)
qed

lemma timerOk_length: "timerOk s \<Longrightarrow> length (timers s) \<le> 1"
  by (auto dest: timerOk_cases)

lemma timers_onRowInput:
  assumes "timerOk s" and "\<not> displayMode s"
  shows "timers (onRowInput j v s) =
           (if int (length v) < threshold s then [] else [(nextHandle s, j, v)])"
proof -
  from timerOk_cases [OF assms(1)] show ?thesis
  proof
    assume "timers s = []"
    with assms(2) show ?thesis
      by (simp add: onRowInput_def Let_def threshold_def clearTimeout_def split: option.splits)
  next
    assume "\<exists>h i u. timers s = [(h, i, u)] \<and> debounceTimer s = Some h \<and> h < nextHandle s"
    then obtain h i u where "timers s = [(h, i, u)]" "debounceTimer s = Some h" by blast
    with assms(2) show ?thesis
      by (simp add: onRowInput_def Let_def threshold_def clearTimeout_def)
  qed
qed

lemma debounce_onRowInput:
  "\<not> displayMode s \<Longrightarrow>
   debounceTimer (onRowInput j v s) =
     (if int (length v) < threshold s then debounceTimer s else Some (nextHandle s)) \<and>
   nextHandle (onRowInput j v s) =
     (if int (length v) < threshold s then nextHandle s else Suc (nextHandle s))"
  by (simp add: onRowInput_def Let_def threshold_def split: option.splits)

lemma timerOk_onRowInput: "timerOk s \<Longrightarrow> timerOk (onRowInput j v s)"
proof (cases "displayMode s")
  case True
  assume "timerOk s"
  with True show ?thesis by (simp add: onRowInput_def)
next
  case False
  assume ok: "timerOk s"
  show ?thesis
    using timers_onRowInput [OF ok False, of j v] debounce_onRowInput [OF False, of j v]
    by (simp add: timerOk_def)
qed

lemma timers_graphSearch [simp]:
  "timers (graphSearch i v s) = timers s" "debounceTimer (graphSearch i v s) = debounceTimer s"
  "nextHandle (graphSearch i v s) = nextHandle s"
  by (simp_all add: graphSearch_def Let_def)

lemma timerOk_timerFire: "timerOk s \<Longrightarrow> timerOk (timerFire h s)"
proof -
  assume ok: "timerOk s"
  from timerOk_cases [OF ok] show ?thesis
  proof
    assume "timers s = []"
    then show ?thesis by (simp add: timerFire_def timerOk_def)
  next
    assume "\<exists>h i u. timers s = [(h, i, u)] \<and> debounceTimer s = Some h \<and> h < nextHandle s"
    then obtain h' i u where "timers s = [(h', i, u)]" "debounceTimer s = Some h'" "h' < nextHandle s"
      by blast
    then show ?thesis by (simp add: timerFire_def timerOk_def clearTimeout_def)
  qed
qed

lemma timers_saveValue_etc [simp]:
  "nextHandle (saveValue s) = nextHandle s" "nextHandle (ensureMinRows s) = nextHandle s"
  by (simp_all add: saveValue_def ensureMinRows_def Let_def)

lemma timerOk_saveValue [simp]: "timerOk (saveValue s) = timerOk s"
  by (simp add: timerOk_def)

lemma timerOk_ensureMinRows [simp]: "timerOk (ensureMinRows s) = timerOk s"
  by (simp add: timerOk_def)

lemma nextHandle_hydrateRow [simp]: "nextHandle (hydrateRow d i r s) = nextHandle s"
  by (simp add: hydrateRow_def Let_def split: option.splits)

lemma nextHandle_hydrate [simp]: "nextHandle (hydrate d irs s) = nextHandle s"
  by (induction d irs s rule: hydrate.induct) simp_all

lemma timerOk_loadValue: "timerOk s \<Longrightarrow> timerOk (loadValue p d s)"
  by (simp add: timerOk_def loadValue_def Let_def)

lemma timerOk_firstUpdated: "timerOk s \<Longrightarrow> timerOk (firstUpdated host p d s)"
  unfolding firstUpdated_def by (rule timerOk_loadValue) (simp add: timerOk_def)

lemma timerOk_addRow: "timerOk s \<Longrightarrow> timerOk (addRow s)"
  by (simp add: addRow_def timerOk_def)

lemma timerOk_removeRow: "timerOk s \<Longrightarrow> timerOk (removeRow i s)"
  by (simp add: removeRow_def Let_def timerOk_def)

lemma timerOk_moveDown: "timerOk s \<Longrightarrow> timerOk (moveDown i s)"
  by (simp add: moveDown_def timerOk_def)

lemma timerOk_moveUp: "timerOk s \<Longrightarrow> moveUp i s = Inr s' \<Longrightarrow> timerOk s'"
  by (auto simp: moveUp_def timerOk_def split: if_splits)

lemma timerOk_onPick: "timerOk s \<Longrightarrow> onPick i p s = Inr s' \<Longrightarrow> timerOk s'"
  by (auto simp: onPick_def Let_def timerOk_def split: if_splits)

lemma timerOk_clearRow: "timerOk s \<Longrightarrow> clearRow i s = Inr s' \<Longrightarrow> timerOk s'"
  by (auto simp: clearRow_def timerOk_def split: if_splits)

lemma timerOk_tokenAcquired: "timerOk s \<Longrightarrow> timerOk (tokenAcquired k s)"
  by (simp add: tokenAcquired_def timerOk_def split: option.splits)

lemma timerOk_searchResolved: "timerOk s \<Longrightarrow> timerOk (searchResolved k us s)"
  by (simp add: searchResolved_def Let_def timerOk_def split: option.splits)

lemma timerOk_searchFailed: "timerOk s \<Longrightarrow> timerOk (searchFailed k msg s)"
  by (simp add: searchFailed_def timerOk_def split: option.splits)

lemma timerOk_step: "timerOk s \<Longrightarrow> step e s = Inr s' \<Longrightarrow> timerOk s'"
  by (cases e)
    (auto simp: timerOk_firstUpdated timerOk_onRowInput timerOk_addRow timerOk_removeRow
      timerOk_moveDown timerOk_timerFire timerOk_tokenAcquired timerOk_searchResolved
      timerOk_searchFailed
      intro: timerOk_moveUp timerOk_onPick timerOk_clearRow)

lemma timerOk_run: "timerOk s \<Longrightarrow> run es s = Inr s' \<Longrightarrow> timerOk s'"
proof (induction es arbitrary: s)
  case Nil
  then show ?case by simp
next
  case (Cons e es)
  then show ?case by (auto split: sum.splits dest: timerOk_step)
qed

lemma superseded_timer_dead:
  assumes "timerOk s" and "\<not> displayMode s" and "timers s = [(h, a, u)]"
  shows "timerFire h (onRowInput b v s) = onRowInput b v s"
proof -
  from assms(1,3) have "h < nextHandle s" by (simp add: timerOk_def)
  then have "find (\<lambda>(h', i, w). h' = h) (timers (onRowInput b v s)) = None"
    by (simp add: timers_onRowInput [OF assms(1,2)])
  then show ?thesis by (simp add: timerFire_def)
qed

lemma trace_onRowInput [simp]: "trace (onRowInput i v s) = trace s"
  by (simp add: onRowInput_def Let_def split: option.splits)

text \<open>
  Claim C9. The component has one field \<^verbatim>\<open>debounceTimer\<close> for all rows. A new component
  has no pending callback, every run of handlers keeps at most one pending, and it is
  the one the field names. In editable mode an input event on row \<open>j\<close> leaves as the only
  pending callback its own (none when the value is below the threshold), whatever row
  the callback pending before belonged to: that callback never runs, so the query of
  row \<open>a\<close> is not issued once row \<open>b\<close> had a keystroke.
\<close>

theorem one_shared_debounce_timer:
  "timerOk created \<and>
   (timerOk s \<longrightarrow>
      length (timers s) \<le> 1 \<and>
      (\<forall>es s'. run es s = Inr s' \<longrightarrow> timerOk s' \<and> length (timers s') \<le> 1) \<and>
      (\<not> displayMode s \<longrightarrow>
         timers (onRowInput j v s) =
           (if int (length v) < threshold s then [] else [(nextHandle s, j, v)]) \<and>
         trace (onRowInput j v s) = trace s \<and>
         (\<forall>h a u. timers s = [(h, a, u)] \<longrightarrow> timerFire h (onRowInput j v s) = onRowInput j v s)))"
proof (intro conjI impI allI)
  show "timerOk created" by (rule timerOk_created)
next
  assume "timerOk s"
  then show "length (timers s) \<le> 1" by (rule timerOk_length)
next
  fix es s' assume "timerOk s" "run es s = Inr s'"
  then show "timerOk s'" by (rule timerOk_run)
next
  fix es s' assume "timerOk s" "run es s = Inr s'"
  then have "timerOk s'" by (rule timerOk_run)
  then show "length (timers s') \<le> 1" by (rule timerOk_length)
next
  assume "timerOk s" "\<not> displayMode s"
  then show "timers (onRowInput j v s) =
      (if int (length v) < threshold s then [] else [(nextHandle s, j, v)])"
    by (rule timers_onRowInput)
next
  show "trace (onRowInput j v s) = trace s" by simp
next
  fix h a u assume "timerOk s" "\<not> displayMode s" "timers s = [(h, a, u)]"
  then show "timerFire h (onRowInput j v s) = onRowInput j v s" by (rule superseded_timer_dead)
qed

theorem one_shared_debounce_timer_witness:
  "timerOk typedAl \<and> \<not> displayMode typedAl \<and> timers typedAl = [(1, 0, ''al'')] \<and>
   length (timers typedAl) \<le> 1 \<and>
   (\<exists>s'. run [Input 1 ''bo'', TimerFire 1, TimerFire 2, Input 0 ''x''] typedAl = Inr s' \<and>
      timerOk s' \<and> length (timers s') \<le> 1) \<and>
   timers (onRowInput 1 ''bo'' typedAl) = [(nextHandle typedAl, 1, ''bo'')] \<and>
   timers (onRowInput 1 ''b'' typedAl) = [] \<and>
   timerFire 1 (onRowInput 1 ''bo'' typedAl) = onRowInput 1 ''bo'' typedAl"
proof -
  have h: "timerOk typedAl" "\<not> displayMode typedAl" "timers typedAl = [(1, 0, ''al'')]"
    by (simp_all add: typedAl_def twoRows_def created_def onRowInput_def Let_def threshold_def
        timerOk_def)
  have th: "\<not> int (length ''bo'') < threshold typedAl" "int (length ''b'') < threshold typedAl"
    by (simp_all add: typedAl_def twoRows_def created_def onRowInput_def Let_def threshold_def)
  have go: "\<exists>s'. run [Input 1 ''bo'', TimerFire 1, TimerFire 2, Input 0 ''x''] typedAl = Inr s'"
    by simp
  note t1 = one_shared_debounce_timer [of typedAl 1 "''bo''"]
  note t2 = one_shared_debounce_timer [of typedAl 1 "''b''"]
  from t1 t2 h th go show ?thesis by (simp del: run.simps step.simps) blast
qed

section \<open>Keystrokes and queries\<close>

lemma searchCalls_append: "searchCalls (xs @ ys) = searchCalls xs @ searchCalls ys"
  by (induction xs rule: searchCalls.induct) simp_all

lemma threshold_onRowInput [simp]: "threshold (onRowInput i v s) = threshold s"
  by (simp add: onRowInput_def Let_def threshold_def split: option.splits)

lemma burst_snoc: "burst i (vs @ [v]) s = onRowInput i v (burst i vs s)"
  by (simp add: burst_def)

lemma burst_keeps:
  "timerOk s \<Longrightarrow>
   timerOk (burst i vs s) \<and> displayMode (burst i vs s) = displayMode s \<and>
   trace (burst i vs s) = trace s \<and> threshold (burst i vs s) = threshold s"
proof (induction vs rule: rev_induct)
  case Nil
  then show ?case by (simp add: burst_def)
next
  case (snoc v vs)
  then show ?case by (simp add: burst_snoc timerOk_onRowInput)
qed

lemma timers_burst:
  assumes "timerOk s" and "\<not> displayMode s" and "vs \<noteq> []"
  shows "timers (burst i vs s) =
           (if int (length (last vs)) < threshold s then []
            else [(nextHandle (burst i (butlast vs) s), i, last vs)])"
proof -
  from assms(3) obtain ws w where vs: "vs = ws @ [w]" by (cases vs rule: rev_cases) auto
  from burst_keeps [OF assms(1), of i ws] assms(2)
  have k: "timerOk (burst i ws s)" "\<not> displayMode (burst i ws s)"
    "threshold (burst i ws s) = threshold s" by simp_all
  show ?thesis
    by (simp add: vs burst_snoc timers_onRowInput [OF k(1,2)] k(3))
qed

lemma suggestions_short:
  "\<not> displayMode s \<Longrightarrow> int (length v) < threshold s \<Longrightarrow> suggestions (onRowInput i v s) i = None"
  by (auto simp: onRowInput_def Let_def threshold_def split: option.splits if_splits)

lemma suggestions_burst_short:
  assumes "timerOk s" and "\<not> displayMode s" and "vs \<noteq> []"
    and "int (length (last vs)) < threshold s"
  shows "suggestions (burst i vs s) i = None"
proof -
  from assms(3) obtain ws w where vs: "vs = ws @ [w]" by (cases vs rule: rev_cases) auto
  from burst_keeps [OF assms(1), of i ws] assms(2)
  have k: "\<not> displayMode (burst i ws s)" "threshold (burst i ws s) = threshold s" by simp_all
  from assms(4) show ?thesis by (simp add: vs burst_snoc suggestions_short [OF k(1)] k(2))
qed

lemma trace_graphSearch:
  "trace (graphSearch i v s) =
     trace s @ [SearchCall i v] @ (if displayMode s then [] else [TokenRequest (scopes s)])"
  by (simp add: graphSearch_def Let_def)

lemma fireAll_none: "timers s = [] \<Longrightarrow> fireAll s = s"
  by (simp add: fireAll_def)

lemma trace_fireAll_one:
  "timers s = [(h, i, v)] \<Longrightarrow>
   trace (fireAll s) =
     trace s @ [SearchCall i v] @ (if displayMode s then [] else [TokenRequest (scopes s)])"
  by (simp add: fireAll_def timerFire_def trace_graphSearch)

lemma searchCalls_burst:
  assumes "timerOk s" and "\<not> displayMode s" and "vs \<noteq> []"
  shows "searchCalls (trace (fireAll (burst i vs s))) =
           searchCalls (trace s) @
           (if int (length (last vs)) < threshold s then [] else [(i, last vs)])"
proof (cases "int (length (last vs)) < threshold s")
  case True
  with timers_burst [OF assms, of i] have "timers (burst i vs s) = []" by simp
  then have "fireAll (burst i vs s) = burst i vs s" by (rule fireAll_none)
  with True burst_keeps [OF assms(1), of i vs] show ?thesis by simp
next
  case False
  with timers_burst [OF assms, of i]
  have "timers (burst i vs s) = [(nextHandle (burst i (butlast vs) s), i, last vs)]" by simp
  from trace_fireAll_one [OF this] False burst_keeps [OF assms(1), of i vs]
  show ?thesis by (simp add: searchCalls_append)
qed

text \<open>
  Claim C6. In editable mode, with the timer field in order (as it is in every state a
  run reaches), a burst of keystrokes in row \<open>i\<close> with no timer running out in between,
  followed by the time in which every pending callback runs, adds to the calls of
  \<^verbatim>\<open>graphSearch\<close> exactly one call, for row \<open>i\<close> with the value of the last keystroke, when
  that value reaches the threshold; and no call when it does not, and then the
  suggestions of row \<open>i\<close> are cleared. A single keystroke below the threshold clears the
  suggestions of its row, leaves no callback pending and calls nothing.
\<close>

theorem debounce_burst:
  "timerOk s \<and> \<not> displayMode s \<longrightarrow>
     (vs \<noteq> [] \<longrightarrow>
        searchCalls (trace (fireAll (burst i vs s))) =
          searchCalls (trace s) @
          (if int (length (last vs)) < threshold s then [] else [(i, last vs)]) \<and>
        (int (length (last vs)) < threshold s \<longrightarrow> suggestions (burst i vs s) i = None)) \<and>
     (int (length v) < threshold s \<longrightarrow>
        suggestions (onRowInput i v s) i = None \<and>
        timers (onRowInput i v s) = [] \<and>
        fireAll (onRowInput i v s) = onRowInput i v s \<and>
        trace (onRowInput i v s) = trace s)"
proof (intro conjI impI)
  assume a: "timerOk s \<and> \<not> displayMode s" and ne: "vs \<noteq> []"
  from a ne show "searchCalls (trace (fireAll (burst i vs s))) =
      searchCalls (trace s) @ (if int (length (last vs)) < threshold s then [] else [(i, last vs)])"
    by (simp add: searchCalls_burst)
next
  assume a: "timerOk s \<and> \<not> displayMode s" and ne: "vs \<noteq> []"
    and sh: "int (length (last vs)) < threshold s"
  from a ne sh show "suggestions (burst i vs s) i = None" by (simp add: suggestions_burst_short)
next
  assume a: "timerOk s \<and> \<not> displayMode s" and sh: "int (length v) < threshold s"
  from a sh show "suggestions (onRowInput i v s) i = None" by (simp add: suggestions_short)
next
  assume a: "timerOk s \<and> \<not> displayMode s" and sh: "int (length v) < threshold s"
  from a sh show t: "timers (onRowInput i v s) = []" by (simp add: timers_onRowInput)
  then show "fireAll (onRowInput i v s) = onRowInput i v s" by (rule fireAll_none)
next
  show "trace (onRowInput i v s) = trace s" by simp
qed

theorem debounce_burst_witness:
  "timerOk twoRows \<and> \<not> displayMode twoRows \<and> threshold twoRows = 2 \<and>
   searchCalls (trace (fireAll (burst 0 [''a'', ''al''] twoRows))) = [(0, ''al'')] \<and>
   searchCalls (trace (fireAll (burst 0 [''a'', ''al'', ''a''] twoRows))) = [] \<and>
   suggestions (burst 0 [''a'', ''al'', ''a''] twoRows) 0 = None \<and>
   suggestions (onRowInput 0 ''a'' twoRows) 0 = None \<and>
   timers (onRowInput 0 ''a'' twoRows) = [] \<and>
   trace (onRowInput 0 ''a'' twoRows) = []"
proof -
  have h: "timerOk twoRows" "\<not> displayMode twoRows" "threshold twoRows = 2" "trace twoRows = []"
    by (simp_all add: twoRows_def created_def timerOk_def threshold_def)
  note t1 = debounce_burst [of twoRows "[''a'', ''al'']" 0 "''a''"]
  note t2 = debounce_burst [of twoRows "[''a'', ''al'', ''a'']" 0 "''a''"]
  from t1 t2 h show ?thesis by simp
qed

section \<open>Responses\<close>

lemma find_filter: "(\<And>x. P x \<Longrightarrow> Q x) \<Longrightarrow> find P (filter Q xs) = find P xs"
  by (induction xs) auto

lemma findQuery_onRowInput [simp]: "findQuery k (onRowInput i v s) = findQuery k s"
  by (simp add: findQuery_def onRowInput_def Let_def split: option.splits)

lemma suggestions_searchResolved:
  "findQuery k s = Some q \<Longrightarrow> q_phase q = AwaitFetch \<Longrightarrow>
   suggestions (searchResolved k us s) = (suggestions s)(q_index q \<mapsto> map toPerson us)"
  by (simp add: searchResolved_def Let_def)

lemma terms_searchResolved [simp]: "terms (searchResolved k us s) = terms s"
  by (simp add: searchResolved_def Let_def split: option.splits)

lemma terms_onRowInput: "\<not> displayMode s \<Longrightarrow> terms (onRowInput i v s) i = Some v"
  by (simp add: onRowInput_def Let_def split: option.splits)

lemma find_dropQuery:
  "k' \<noteq> k \<Longrightarrow> find (\<lambda>q. q_id q = k') (dropQuery k qs) = find (\<lambda>q. q_id q = k') qs"
  unfolding dropQuery_def by (rule find_filter) simp

lemma findQuery_searchResolved:
  "k' \<noteq> k \<Longrightarrow> findQuery k' (searchResolved k us s) = findQuery k' s"
  by (simp add: findQuery_def searchResolved_def Let_def find_dropQuery split: option.splits)

text \<open>
  Claim C1, amended. What a keystroke cancels is the pending callback: in editable mode
  the only callback pending after an input is that input's own, so a query for a term
  that was replaced before its timer ran out is never dispatched. A query that has been
  dispatched is not guarded: when its response arrives, the suggestions of the row index
  it captured are set to its results, whatever the row's term has become in between,
  and of two dispatched queries of one row the one whose response arrives last decides
  the suggestions, also when it was started first.
\<close>

theorem response_applied_on_arrival:
  "(timerOk s \<and> \<not> displayMode s \<longrightarrow>
      timers (onRowInput i v s) =
        (if int (length v) < threshold s then [] else [(nextHandle s, i, v)])) \<and>
   (findQuery k s = Some q \<and> q_phase q = AwaitFetch \<longrightarrow>
      suggestions (searchResolved k us (onRowInput (q_index q) v s)) (q_index q) =
        Some (map toPerson us) \<and>
      (\<not> displayMode s \<longrightarrow>
         terms (searchResolved k us (onRowInput (q_index q) v s)) (q_index q) = Some v)) \<and>
   (findQuery k s = Some q \<and> q_phase q = AwaitFetch \<and>
    findQuery k' s = Some q' \<and> q_phase q' = AwaitFetch \<and> k \<noteq> k' \<and> q_index q' = q_index q \<longrightarrow>
      suggestions (searchResolved k us (searchResolved k' us' s)) (q_index q) =
        Some (map toPerson us))"
proof (intro conjI impI)
  assume "timerOk s \<and> \<not> displayMode s"
  then show "timers (onRowInput i v s) =
      (if int (length v) < threshold s then [] else [(nextHandle s, i, v)])"
    by (simp add: timers_onRowInput)
next
  assume a: "findQuery k s = Some q \<and> q_phase q = AwaitFetch"
  then have "findQuery k (onRowInput (q_index q) v s) = Some q" by simp
  from suggestions_searchResolved [OF this] a
  show "suggestions (searchResolved k us (onRowInput (q_index q) v s)) (q_index q) =
      Some (map toPerson us)" by simp
next
  assume "\<not> displayMode s"
  then show "terms (searchResolved k us (onRowInput (q_index q) v s)) (q_index q) = Some v"
    by (simp add: terms_onRowInput)
next
  assume a: "findQuery k s = Some q \<and> q_phase q = AwaitFetch \<and>
    findQuery k' s = Some q' \<and> q_phase q' = AwaitFetch \<and> k \<noteq> k' \<and> q_index q' = q_index q"
  then have "findQuery k (searchResolved k' us' s) = Some q"
    by (simp add: findQuery_searchResolved)
  from suggestions_searchResolved [OF this] a
  show "suggestions (searchResolved k us (searchResolved k' us' s)) (q_index q) =
      Some (map toPerson us)" by simp
qed

theorem response_applied_on_arrival_witness:
  "timerOk twoInFlight \<and> \<not> displayMode twoInFlight \<and>
   findQuery 0 twoInFlight = Some alQuery \<and> findQuery 1 twoInFlight = Some bobQuery \<and>
   timers (onRowInput 0 ''bobb'' twoInFlight) = [(nextHandle twoInFlight, 0, ''bobb'')] \<and>
   suggestions (searchResolved 0 [aliceUser] (onRowInput 0 ''bobb'' twoInFlight)) 0 =
     Some [toPerson aliceUser] \<and>
   terms (searchResolved 0 [aliceUser] (onRowInput 0 ''bobb'' twoInFlight)) 0 = Some ''bobb'' \<and>
   suggestions (searchResolved 0 [aliceUser] (searchResolved 1 [bobUser] twoInFlight)) 0 =
     Some [toPerson aliceUser]"
proof -
  have h: "timerOk twoInFlight" "\<not> displayMode twoInFlight"
    "findQuery 0 twoInFlight = Some alQuery" "findQuery 1 twoInFlight = Some bobQuery"
    by code_simp+
  have q: "q_phase alQuery = AwaitFetch" "q_phase bobQuery = AwaitFetch" "q_index alQuery = 0"
    "q_index bobQuery = 0" "\<not> int (length ''bobb'') < threshold twoInFlight"
    by code_simp+
  note t = response_applied_on_arrival
    [of twoInFlight 0 "''bobb''" 0 alQuery "[aliceUser]" 1 bobQuery "[bobUser]"]
  from t h q show ?thesis by simp
qed

text \<open>
  Claim C1 as stated fails. The response for \<^verbatim>\<open>al\<close> arrives when the row's term is
  \<^verbatim>\<open>bob\<close>, and its results become the suggestions of the row; and when the query for
  \<^verbatim>\<open>bob\<close> has been answered already, the late response for \<^verbatim>\<open>al\<close> overwrites its results.
\<close>

theorem stale_response_applied:
  "terms staleResponse 0 = Some ''bob'' \<and>
   searchCalls (trace staleResponse) = [(0, ''al'')] \<and>
   suggestions staleResponse 0 = Some [toPerson aliceUser] \<and>
   terms overtaken 0 = Some ''bob'' \<and>
   searchCalls (trace overtaken) = [(0, ''al''), (0, ''bob'')] \<and>
   suggestions overtaken 0 = Some [toPerson aliceUser]"
  by code_simp

section \<open>Failures\<close>






section \<open>Sign-in prompts\<close>


lemma serveStep_last:
  "requests s = ps @ [p] \<Longrightarrow>
   serveStep a tok s =
     (case p of
        AwaitLoginPopup \<Rightarrow> resume (length ps) (GotAccount a) s
      | AwaitSilent \<Rightarrow> resume (length ps) (GotToken tok) s
      | _ \<Rightarrow> resume (length ps) Done s)"
  by (simp add: serveStep_def Let_def)

lemma serve_first:
  assumes "cid \<noteq> []"
  shows "settledWith a tok (serve a tok (noSession cid)) \<and>
         length (requests (serve a tok (noSession cid))) = 1"
proof -
  let ?s = "noSession cid"
  let ?at = "\<lambda>p. ?s\<lparr>msal := True, requests := [p]\<rparr>"
  let ?popup = "?s\<lparr>msal := True, openPrompts := [LoginPopup], promptLog := [LoginPopup],
                    requests := [AwaitLoginPopup]\<rparr>"
  let ?in = "\<lambda>p. ?s\<lparr>msal := True, account := Some a, activeAccount := Some a,
                    promptLog := [LoginPopup], requests := [p]\<rparr>"
  have g: "getAccessToken ?s = ?at AwaitInitialize"
    using assms by (simp add: getAccessToken_def noSession_def)
  have s1: "serveStep a tok (?at AwaitInitialize) = ?at AwaitRedirect"
    by (simp add: serveStep_last [of _ "[]" AwaitInitialize] resume_def)
  have s2: "serveStep a tok (?at AwaitRedirect) = ?at AwaitEnsureMsal"
    by (simp add: serveStep_last [of _ "[]" AwaitRedirect] resume_def)
  have s3: "serveStep a tok (?at AwaitEnsureMsal) = ?popup"
    by (simp add: serveStep_last [of _ "[]" AwaitEnsureMsal] resume_def knownAccount_def
        noSession_def)
  have s4: "serveStep a tok ?popup = ?in AwaitEnsureAccount"
    by (simp add: serveStep_last [of _ "[]" AwaitLoginPopup] resume_def noSession_def)
  have s5: "serveStep a tok (?in AwaitEnsureAccount) = ?in AwaitSilent"
    by (simp add: serveStep_last [of _ "[]" AwaitEnsureAccount] resume_def)
  have s6: "serveStep a tok (?in AwaitSilent) = ?in (Resolved tok)"
    by (simp add: serveStep_last [of _ "[]" AwaitSilent] resume_def)
  have "serve a tok ?s = ?in (Resolved tok)"
    by (simp add: serve_def g eval_nat_numeral s1 s2 s3 s4 s5 s6)
  then show ?thesis by (simp add: settledWith_def noSession_def)
qed






section \<open>Loading in display mode\<close>

lemma trace_hydrateRow:
  "trace (hydrateRow d i r s) =
     trace s @ (if approver r \<noteq> [] then fetchEffects d (scopes s) (approver r) else [])"
  by (simp add: hydrateRow_def Let_def split: option.splits)

lemma trace_hydrate:
  "trace (hydrate d irs s) =
     trace s @ concat (map (fetchEffects d (scopes s))
       (filter (\<lambda>key. key \<noteq> []) (map (\<lambda>ir. approver (snd ir)) irs)))"
  by (induction d irs s rule: hydrate.induct) (simp_all add: trace_hydrateRow)

lemma approver_renumberOrders: "map approver (renumberOrders rs) = map approver rs"
  by (subst list_eq_iff_nth_eq) (simp add: renumberOrders_nth)

lemma approver_enumerate: "map (\<lambda>ir. approver (snd ir)) (enumerate n rs) = map approver rs"
  by (induction rs arbitrary: n) simp_all

lemma trace_loadValue_display:
  "displayMode s \<Longrightarrow>
   trace (loadValue (Array rs) d s) =
     trace s @ concat (map (fetchEffects d (scopes s))
       (filter (\<lambda>key. key \<noteq> []) (map approver rs)))"
  by (simp add: loadValue_def Let_def trace_hydrate approver_enumerate approver_renumberOrders)

lemma graphSearch_display:
  "displayMode s \<Longrightarrow>
   graphSearch i v s =
     s\<lparr>trace := trace s @ [SearchCall i v],
       searches := searches s @
         [\<lparr>q_id = nextQuery s, q_index = i, q_term = v, q_phase = ShortCircuit\<rparr>],
       nextQuery := Suc (nextQuery s)\<rparr>"
  by (simp add: graphSearch_def Let_def)

lemma searchResolved_short:
  "findQuery k s = Some q \<Longrightarrow> q_phase q = ShortCircuit \<Longrightarrow>
   searchResolved k us s =
     s\<lparr>suggestions := (suggestions s)(q_index q \<mapsto> []),
       loading := False,
       searches := dropQuery k (searches s)\<rparr>"
  by (simp add: searchResolved_def Let_def)

text \<open>
  Claim C10. In display mode \<^verbatim>\<open>loadValue\<close> calls \<^verbatim>\<open>fetchUserDetails\<close> for every row of the
  persisted array whose approver is not empty, in the order of the rows, and each call
  asks for a token and, when it gets one, sends the lookup of the key: the trace grows
  by exactly these calls. \<^verbatim>\<open>graphSearch\<close> in display mode is recorded as called and asks
  for nothing: no token, no request; its result, when the closure resumes, is the empty
  list. A request for a token knows nothing of the mode: the first one of a session,
  served to its end, opens the sign-in popup.
\<close>

theorem display_mode_resolves_but_does_not_search:
  "displayMode s \<longrightarrow>
     trace (loadValue (Array rs) d s) =
       trace s @ concat (map (fetchEffects d (scopes s))
         (filter (\<lambda>key. key \<noteq> []) (map approver rs))) \<and>
     fetchEffects d (scopes s) key =
       [UserDetailsCall key, TokenRequest (scopes s)] @
       (case tokenFor d (scopes s) of None \<Rightarrow> [] | Some tok \<Rightarrow> [HttpGet (UserByKey key)]) \<and>
     trace (graphSearch i v s) = trace s @ [SearchCall i v] \<and>
     searches (graphSearch i v s) =
       searches s @ [\<lparr>q_id = nextQuery s, q_index = i, q_term = v, q_phase = ShortCircuit\<rparr>] \<and>
     (findQuery k s = Some q \<and> q_phase q = ShortCircuit \<longrightarrow>
        trace (searchResolved k us s) = trace s \<and>
        suggestions (searchResolved k us s) (q_index q) = Some []) \<and>
     (cid \<noteq> [] \<longrightarrow> promptLog (serve a tok (noSession cid)) = [LoginPopup])"
proof (intro conjI impI)
  assume "cid \<noteq> []"
  from serve_first [OF this, of a tok]
  show "promptLog (serve a tok (noSession cid)) = [LoginPopup]" by (simp add: settledWith_def)
next
  assume "displayMode s"
  then show "trace (loadValue (Array rs) d s) =
      trace s @ concat (map (fetchEffects d (scopes s))
        (filter (\<lambda>key. key \<noteq> []) (map approver rs)))"
    by (rule trace_loadValue_display)
next
  show "fetchEffects d (scopes s) key =
      [UserDetailsCall key, TokenRequest (scopes s)] @
      (case tokenFor d (scopes s) of None \<Rightarrow> [] | Some tok \<Rightarrow> [HttpGet (UserByKey key)])"
    by (simp add: fetchEffects_def)
next
  assume "displayMode s"
  then show "trace (graphSearch i v s) = trace s @ [SearchCall i v]"
    by (simp add: graphSearch_display)
next
  assume "displayMode s"
  then show "searches (graphSearch i v s) =
      searches s @ [\<lparr>q_id = nextQuery s, q_index = i, q_term = v, q_phase = ShortCircuit\<rparr>]"
    by (simp add: graphSearch_display)
next
  assume "findQuery k s = Some q \<and> q_phase q = ShortCircuit"
  then show "trace (searchResolved k us s) = trace s" by (simp add: searchResolved_short)
next
  assume "findQuery k s = Some q \<and> q_phase q = ShortCircuit"
  then show "suggestions (searchResolved k us s) (q_index q) = Some []"
    by (simp add: searchResolved_short)
qed

theorem display_mode_resolves_but_does_not_search_witness:
  "displayMode created \<and>
   trace (loadValue (Array unordered) emptyDirectory created) =
     [UserDetailsCall ''carol@x.com'', TokenRequest (scopes created),
      HttpGet (UserByKey ''carol@x.com''),
      UserDetailsCall ''dave@x.com'', TokenRequest (scopes created),
      HttpGet (UserByKey ''dave@x.com'')] \<and>
   trace (graphSearch 0 ''al'' created) = [SearchCall 0 ''al''] \<and>
   displayMode (graphSearch 0 ''al'' created) \<and>
   findQuery 0 (graphSearch 0 ''al'' created) = Some shortQuery \<and>
   trace (searchResolved 0 [aliceUser] (graphSearch 0 ''al'' created)) = [SearchCall 0 ''al''] \<and>
   suggestions (searchResolved 0 [aliceUser] (graphSearch 0 ''al'' created)) 0 = Some [] \<and>
   promptLog (serve ''ann'' ''t'' (noSession ''app'')) = [LoginPopup]"
proof -
  have c: "''app'' \<noteq> []" by simp
  have h: "displayMode created" "displayMode (graphSearch 0 ''al'' created)"
    "findQuery 0 (graphSearch 0 ''al'' created) = Some shortQuery"
    "q_phase shortQuery = ShortCircuit" "q_index shortQuery = 0" "trace created = []"
    by code_simp+
  have e: "concat (map (fetchEffects emptyDirectory (scopes created))
        (filter (\<lambda>key. key \<noteq> []) (map approver unordered))) =
     [UserDetailsCall ''carol@x.com'', TokenRequest (scopes created),
      HttpGet (UserByKey ''carol@x.com''),
      UserDetailsCall ''dave@x.com'', TokenRequest (scopes created),
      HttpGet (UserByKey ''dave@x.com'')]"
    by (simp add: unordered_def fetchEffects_def emptyDirectory_def)
  note t1 = display_mode_resolves_but_does_not_search
    [where s = created and rs = unordered and d = emptyDirectory and key = "''carol@x.com''"
      and i = 0 and v = "''al''" and k = 0 and q = shortQuery and us = "[aliceUser]"
      and cid = "''app''" and a = "''ann''" and tok = "''t''"]
  note t2 = display_mode_resolves_but_does_not_search
    [where s = "graphSearch 0 ''al'' created" and rs = unordered and d = emptyDirectory
      and key = "''carol@x.com''" and i = 0 and v = "''al''" and k = 0 and q = shortQuery
      and us = "[aliceUser]" and cid = "''app''" and a = "''ann''" and tok = "''t''"]
  from t1 t2 h e c show ?thesis by simp
qed

end
